theory Spec2Isabelle
  imports Main "HOL-Library.Monad_Syntax"
begin

section \<open>JavaScript values used by the importer\<close>

text \<open>
  A JavaScript string is a sequence of UTF-16 code units; a code unit is modelled as a
  natural number (below 65536 in every string the program can read).  ASCII literals of
  the source are written with \<open>lit\<close>; the four non-ASCII characters the source uses are
  named by their code points.
\<close>

type_synonym jschar = nat

type_synonym jsstring = "jschar list"

definition lit :: "string \<Rightarrow> jsstring" where
  "lit s = map of_char s"

definition c_minus :: jschar where "c_minus = 8722"   \<comment> \<open>U+2212, the typographic minus\<close>

definition c_bullet :: jschar where "c_bullet = 8226"  \<comment> \<open>U+2022\<close>

definition c_emdash :: jschar where "c_emdash = 8212"  \<comment> \<open>U+2014\<close>

definition c_fwcolon :: jschar where "c_fwcolon = 65306" \<comment> \<open>U+FF1A, the full-width colon\<close>

text \<open>
  The numbers the program handles are results of \<open>parseInt\<close> or \<open>null\<close>.  A number is an
  integer, \<open>NaN\<close> or an infinity; \<open>null\<close> and \<open>undefined\<close> are \<open>None\<close> of an option type.
\<close>

datatype jsnum = Num int | NaN | PosInf | NegInf

text \<open>The relational operator \<open>a > b\<close> on numbers: false as soon as one side is \<open>NaN\<close>.\<close>

fun js_gt :: "jsnum \<Rightarrow> jsnum \<Rightarrow> bool" where
  "js_gt NaN _ = False"
| "js_gt _ NaN = False"
| "js_gt (Num a) (Num b) = (a > b)"
| "js_gt PosInf PosInf = False"
| "js_gt PosInf _ = True"
| "js_gt NegInf _ = False"
| "js_gt (Num a) NegInf = True"
| "js_gt (Num a) PosInf = False"

text \<open>\<open>Number.isFinite(x)\<close>: true for finite numbers only; \<open>null\<close> is no number.\<close>

fun Number_isFinite :: "jsnum option \<Rightarrow> bool" where
  "Number_isFinite (Some (Num n)) = True"
| "Number_isFinite _ = False"

text \<open>The global \<open>isFinite(x)\<close> converts its argument first, and \<open>Number(null)\<close> is 0.\<close>

fun isFinite :: "jsnum option \<Rightarrow> bool" where
  "isFinite None = True"
| "isFinite (Some (Num n)) = True"
| "isFinite (Some _) = False"

text \<open>\<open>s || d\<close> for a string or \<open>null\<close> \<open>s\<close>: the empty string is falsy as \<open>null\<close> is.\<close>

fun or_str :: "jsstring option \<Rightarrow> jsstring \<Rightarrow> jsstring" where
  "or_str None d = d"
| "or_str (Some s) d = (if s = [] then d else s)"

section \<open>Text utilities\<close>

text \<open>The class \<open>\s\<close>, which is also what \<open>trim\<close> and \<open>parseInt\<close> strip.\<close>

definition is_space :: "jschar \<Rightarrow> bool" where
  "is_space c \<longleftrightarrow>
     c = 9 \<or> c = 10 \<or> c = 11 \<or> c = 12 \<or> c = 13 \<or> c = 32 \<or> c = 160 \<or> c = 5760 \<or>
     (8192 \<le> c \<and> c \<le> 8202) \<or> c = 8232 \<or> c = 8233 \<or> c = 8239 \<or> c = 8287 \<or>
     c = 12288 \<or> c = 65279"

definition is_digit :: "jschar \<Rightarrow> bool" where
  "is_digit c \<longleftrightarrow> 48 \<le> c \<and> c \<le> 57"

text \<open>\<open>s.replace(/\s+/g, " ")\<close>: every maximal run of white space becomes one space.\<close>

function collapse_spaces :: "jsstring \<Rightarrow> jsstring" where
  "collapse_spaces [] = []"
| "collapse_spaces (c # cs) =
     (if is_space c then 32 # collapse_spaces (dropWhile is_space cs)
      else c # collapse_spaces cs)"
  by pat_completeness auto

termination
  by (relation "measure length") (auto simp: length_dropWhile_le less_Suc_eq_le)

definition trim :: "jsstring \<Rightarrow> jsstring" where
  "trim s = rev (dropWhile is_space (rev (dropWhile is_space s)))"

text \<open>\<open>function clean(s) { return (s || "").replace(/\s+/g, " ").trim(); }\<close>\<close>

definition clean :: "jsstring option \<Rightarrow> jsstring" where
  "clean s = trim (collapse_spaces (or_str s []))"

text \<open>
  \<open>s.replace(p, r)\<close> with a one-character string (or one-character class) pattern:
  only the first occurrence is replaced.
\<close>

fun replace_first :: "jschar \<Rightarrow> jsstring \<Rightarrow> jsstring \<Rightarrow> jsstring" where
  "replace_first p r [] = []"
| "replace_first p r (c # cs) = (if c = p then r @ cs else c # replace_first p r cs)"

text \<open>\<open>function normalizePlus(s) { return (s || "").replace("\\<minus>", "-"); }\<close>\<close>

definition normalizePlus :: "jsstring option \<Rightarrow> jsstring" where
  "normalizePlus s = replace_first c_minus (lit ''-'') (or_str s [])"

text \<open>
  \<open>s.split(/[,\\<bullet>;]+/)\<close>: the pieces between the maximal runs of separators; a separator
  at the start or at the end leaves an empty piece there, and the empty string splits
  into one empty piece.
\<close>

definition is_trait_sep :: "jschar \<Rightarrow> bool" where
  "is_trait_sep c \<longleftrightarrow> c = 44 \<or> c = c_bullet \<or> c = 59"

function split_runs :: "(jschar \<Rightarrow> bool) \<Rightarrow> jsstring \<Rightarrow> jsstring list" where
  "split_runs sep s =
     (let piece = takeWhile (\<lambda>c. \<not> sep c) s;
          rest = dropWhile (\<lambda>c. \<not> sep c) s
      in if rest = [] then [piece] else piece # split_runs sep (dropWhile sep rest))"
  by pat_completeness auto

termination
proof (relation "measure (\<lambda>(sep, s). length s)", goal_cases)
  case 1
  show ?case by simp
next
  case (2 sep s piece rest)
  from 2 have ne: "dropWhile (\<lambda>c. \<not> sep c) s \<noteq> []" and
    rest: "rest = dropWhile (\<lambda>c. \<not> sep c) s" by simp_all
  have rne: "rest \<noteq> []" unfolding rest by (rule ne)
  obtain r rs where rr: "rest = r # rs" using rne by (cases rest) auto
  have "\<not> \<not> sep (hd (dropWhile (\<lambda>c. \<not> sep c) s))" using ne by (rule hd_dropWhile)
  then have "sep r" unfolding rest [symmetric] rr by simp
  then have "length (dropWhile sep rest) \<le> length rs"
    by (simp add: rr length_dropWhile_le)
  moreover have "length rest \<le> length s" unfolding rest by (rule length_dropWhile_le)
  ultimately show ?case using rr by simp
qed

declare split_runs.simps [simp del]

text \<open>\<open>filter(Boolean)\<close> on strings drops the empty ones.\<close>

definition splitTraits :: "jsstring \<Rightarrow> jsstring list" where
  "splitTraits s = filter (\<lambda>x. x \<noteq> []) (map (\<lambda>x. clean (Some x)) (split_runs is_trait_sep s))"

text \<open>\<open>Array.from(new Set(a))\<close>: a set keeps the first occurrence, in insertion order.\<close>

definition dedup :: "'a list \<Rightarrow> 'a list" where
  "dedup a = fold (\<lambda>x s. if x \<in> set s then s else s @ [x]) a []"

text \<open>
  \<open>parseInt(s, 10)\<close>: leading white space is skipped, one sign is read, then the longest
  run of decimal digits; no digit gives \<open>NaN\<close>.  The digits denote an integer, and the
  result is the number nearest to it.  Below \<open>2^53\<close> that is the integer itself.  From
  there on a number keeps 53 significant bits: the integer is rounded to the nearest
  multiple of the power of two below its 53 leading bits, a tie going to the even
  multiple, and a result of \<open>2^1024\<close> or more is an infinity.  (The language lets an
  implementation approximate the digits after the twentieth; the engines round
  correctly, which is what is modelled.)
\<close>

definition digits_value :: "jsstring \<Rightarrow> int" where
  "digits_value ds = foldl (\<lambda>acc d. acc * 10 + (int d - 48)) 0 ds"

function bit_length :: "int \<Rightarrow> nat" where
  "bit_length m = (if m \<le> 0 then 0 else Suc (bit_length (m div 2)))"
  by pat_completeness auto
termination
  by (relation "measure nat") auto

declare bit_length.simps [simp del]

definition round_double :: "int \<Rightarrow> int" where
  "round_double m =
     (let e = bit_length m - 53;
          q = m div 2 ^ e;
          r = m mod 2 ^ e;
          h = 2 ^ (e - 1)
      in (if h < r \<or> (r = h \<and> odd q) then q + 1 else q) * 2 ^ e)"

definition to_number :: "bool \<Rightarrow> int \<Rightarrow> jsnum" where
  "to_number neg m =
     (if m < 2 ^ 53 then Num (if neg then - m else m)
      else (let v = round_double m
            in if 2 ^ 1024 \<le> v then (if neg then NegInf else PosInf)
               else Num (if neg then - v else v)))"

definition parseInt10 :: "jsstring \<Rightarrow> jsnum" where
  "parseInt10 s =
     (let t = dropWhile is_space s;
          neg = (t \<noteq> [] \<and> hd t = 45);
          u = (if t \<noteq> [] \<and> (hd t = 43 \<or> hd t = 45) then tl t else t);
          z = takeWhile is_digit u
      in if z = [] then NaN else to_number neg (digits_value z))"

section \<open>Merging attack candidates\<close>

text \<open>
  An attack entry is the object literal \<open>{ name, attack, damage }\<close>.  The extractors
  always store strings in \<open>name\<close> and \<open>attack\<close>; the merge guards both against a missing
  value, so both are optional here.
\<close>

record attack_entry =
  name :: "jsstring option"
  attack :: "jsstring option"
  damage :: "jsstring option"

datatype error =
    InvalidURL          \<comment> \<open>\<open>new URL(..)\<close> threw: \<open>Error("Invalid URL")\<close>\<close>
  | FetchRejected       \<comment> \<open>the mirror request itself was rejected; the rejection is not caught\<close>
  | FetchFailedMirror   \<comment> \<open>\<open>Error("Fetch failed via mirror")\<close>, \<open>Error("Fetch failed.")\<close>\<close>
  | ParseFailed         \<comment> \<open>\<open>Error("Parse failed")\<close>\<close>
  | TypeError           \<comment> \<open>a property of \<open>null\<close> was read\<close>

text \<open>
  A JavaScript \<open>Map\<close> keeps its keys in insertion order: \<open>set\<close> on a key already present
  replaces the value in place, \<open>set\<close> on a new key appends it; \<open>values()\<close> walks that order.
\<close>

type_synonym ('k, 'v) jsmap = "('k \<times> 'v) list"

fun map_set :: "('k, 'v) jsmap \<Rightarrow> 'k \<Rightarrow> 'v \<Rightarrow> ('k, 'v) jsmap" where
  "map_set [] k v = [(k, v)]"
| "map_set ((k', v') # m) k v = (if k' = k then (k, v) # m else (k', v') # map_set m k v)"

definition map_get :: "('k, 'v) jsmap \<Rightarrow> 'k \<Rightarrow> 'v option" where
  "map_get m k = map_of m k"

definition map_values :: "('k, 'v) jsmap \<Rightarrow> 'v list" where
  "map_values m = map snd m"

text \<open>
  \<open>parseInt((a.attack || "0").replace("+", ""), 10)\<close>; part_000 writes the pattern as
  \<open>/[+]/\<close>, which replaces the same first plus sign.
\<close>

definition bonusNum :: "attack_entry \<Rightarrow> jsnum" where
  "bonusNum a = parseInt10 (replace_first 43 [] (or_str (attack a) (lit ''0'')))"

text \<open>
  \<open>String.prototype.toLowerCase\<close> follows the Unicode case tables, which are no part of
  the repository: the merge takes the lower-casing function \<open>lc\<close> as a parameter.
  \<open>ascii_lower\<close> is that function on ASCII strings.
\<close>

definition ascii_lower :: "jsstring \<Rightarrow> jsstring" where
  "ascii_lower s = map (\<lambda>c. if 65 \<le> c \<and> c \<le> 90 then c + 32 else c) s"

text \<open>
  \<^verbatim>\<open>dataloader-aon_co.js\<close>:
  \<^verbatim>\<open>
  for (const a of list) {
    const k = (a.name || "").toLowerCase();
    if (!by.has(k)) by.set(k, a);
    else { const prev = by.get(k); ... if (an > pn) by.set(k, a); }
  }
  return Array.from(by.values());
  \<close>
\<close>

definition attack_key :: "(jsstring \<Rightarrow> jsstring) \<Rightarrow> attack_entry \<Rightarrow> jsstring" where
  "attack_key lc a = lc (or_str (name a) [])"

definition coalesce_step ::
  "(jsstring \<Rightarrow> jsstring) \<Rightarrow> attack_entry \<Rightarrow> (jsstring, attack_entry) jsmap
     \<Rightarrow> (jsstring, attack_entry) jsmap" where
  "coalesce_step lc a by =
     (let k = attack_key lc a in
      case map_get by k of
        None \<Rightarrow> map_set by k a
      | Some prev \<Rightarrow> (if js_gt (bonusNum a) (bonusNum prev) then map_set by k a else by))"

definition coalesceAttacks :: "(jsstring \<Rightarrow> jsstring) \<Rightarrow> attack_entry list \<Rightarrow> attack_entry list" where
  "coalesceAttacks lc list = map_values (fold (coalesce_step lc) list [])"

text \<open>
  \<^verbatim>\<open>part_000\<close> reads \<open>a.name.toLowerCase()\<close> without the guard, which throws a
  \<open>TypeError\<close> on a missing name, and always writes the winner back:
  \<open>map.set(key, aNum > pNum ? a : prev)\<close>.
\<close>

fun coalesce_loop_p0 ::
  "(jsstring \<Rightarrow> jsstring) \<Rightarrow> (jsstring, attack_entry) jsmap \<Rightarrow> attack_entry list
     \<Rightarrow> error + (jsstring, attack_entry) jsmap" where
  "coalesce_loop_p0 lc m [] = Inr m"
| "coalesce_loop_p0 lc m (a # as) =
     (case name a of
        None \<Rightarrow> Inl TypeError
      | Some n \<Rightarrow>
          (let key = lc n in
           case map_get m key of
             None \<Rightarrow> coalesce_loop_p0 lc (map_set m key a) as
           | Some prev \<Rightarrow>
               coalesce_loop_p0 lc
                 (map_set m key (if js_gt (bonusNum a) (bonusNum prev) then a else prev)) as))"

definition coalesceAttacks_p0 ::
  "(jsstring \<Rightarrow> jsstring) \<Rightarrow> attack_entry list \<Rightarrow> error + attack_entry list" where
  "coalesceAttacks_p0 lc list = map_sum id map_values (coalesce_loop_p0 lc [] list)"

section \<open>Regular expressions\<close>

text \<open>
  A pattern is modelled by the list of its matches from a start position, in the order
  in which the backtracking matcher of the language tries them: the match the program
  sees is the head of that list.  A component returns the end positions it can reach,
  a greedy quantifier the longest first, a lazy one the shortest first; sequencing is
  the bind of the list monad, so that an earlier component's choice has priority.

  With the \<open>i\<close> flag and without the \<open>u\<close> flag a letter of the pattern matches its
  two ASCII cases only (no character beyond ASCII is folded to an ASCII one), and the
  classes used here contain no letters.
\<close>

definition ascii_upper :: "jschar \<Rightarrow> jschar" where
  "ascii_upper c = (if 97 \<le> c \<and> c \<le> 122 then c - 32 else c)"

definition slice :: "jsstring \<Rightarrow> nat \<Rightarrow> nat \<Rightarrow> jsstring" where
  "slice t a b = take (b - a) (drop a t)"

definition run :: "(jschar \<Rightarrow> bool) \<Rightarrow> jsstring \<Rightarrow> nat \<Rightarrow> nat" where
  "run P t p = length (takeWhile P (drop p t))"

definition lit_ci :: "jsstring \<Rightarrow> jsstring \<Rightarrow> nat \<Rightarrow> nat list" where
  "lit_ci w t p =
     (if map ascii_upper (slice t p (p + length w)) = map ascii_upper w then [p + length w] else [])"

definition one :: "(jschar \<Rightarrow> bool) \<Rightarrow> jsstring \<Rightarrow> nat \<Rightarrow> nat list" where
  "one P t p = (if p < length t \<and> P (t ! p) then [p + 1] else [])"

definition greedy :: "(jschar \<Rightarrow> bool) \<Rightarrow> nat \<Rightarrow> nat option \<Rightarrow> jsstring \<Rightarrow> nat \<Rightarrow> nat list" where
  "greedy P lo hi t p =
     map (\<lambda>k. p + k)
       (rev [lo ..< Suc (case hi of None \<Rightarrow> run P t p | Some h \<Rightarrow> min h (run P t p))])"

definition lazy :: "(jschar \<Rightarrow> bool) \<Rightarrow> nat \<Rightarrow> jsstring \<Rightarrow> nat \<Rightarrow> nat list" where
  "lazy P lo t p = map (\<lambda>k. p + k) [lo ..< Suc (run P t p)]"

text \<open>
  \<open>re.exec(t)\<close> of a global pattern whose \<open>lastIndex\<close> is \<open>from\<close>: the start positions
  \<open>from, from + 1, .., length t\<close> are tried in turn.
\<close>

definition re_exec :: "(jsstring \<Rightarrow> nat \<Rightarrow> 'm list) \<Rightarrow> jsstring \<Rightarrow> nat \<Rightarrow> 'm option" where
  "re_exec re t from =
     (case concat (map (re t) [from ..< Suc (length t)]) of [] \<Rightarrow> None | m # _ \<Rightarrow> Some m)"

section \<open>Attack extraction\<close>

text \<open>
  The two attack patterns of \<^verbatim>\<open>dataloader-aon_co.js\<close>,
  \<^verbatim>\<open>/(Melee|Ranged)\s+([^\n\r;\<bullet>\<emdash>-]+?)\s+([+\<minus>-]\d{1,2})(?:[^(\n\r]*)\(([^)]+)\)/ig\<close>
  and
  \<^verbatim>\<open>/(Melee|Ranged)\s+([^\n\r;\<bullet>\<emdash>-]+?)\s+([+\<minus>-]\d{1,2})/ig\<close>,
  begin alike; \<^verbatim>\<open>part_000\<close> has \<^verbatim>\<open>\d+\<close> where these have \<^verbatim>\<open>\d{1,2}\<close>.  The bound on
  the digits is the parameter \<open>dmax\<close>: \<open>Some 2\<close> in the first file, \<open>None\<close> in the second.
\<close>

definition is_name_char :: "jschar \<Rightarrow> bool" where
  "is_name_char c \<longleftrightarrow> c \<noteq> 10 \<and> c \<noteq> 13 \<and> c \<noteq> 59 \<and> c \<noteq> c_bullet \<and> c \<noteq> c_emdash \<and> c \<noteq> 45"

definition is_sign :: "jschar \<Rightarrow> bool" where
  "is_sign c \<longleftrightarrow> c = 43 \<or> c = c_minus \<or> c = 45"

record rmatch =
  m_end :: nat               \<comment> \<open>where the match ends: the next \<open>lastIndex\<close>\<close>
  m2 :: jsstring             \<comment> \<open>the name\<close>
  m3 :: jsstring             \<comment> \<open>the signed bonus\<close>
  m4 :: "jsstring option"    \<comment> \<open>the damage, a group of the detailed pattern only\<close>

definition keyword :: "jsstring \<Rightarrow> nat \<Rightarrow> nat list" where
  "keyword t i = lit_ci (lit ''Melee'') t i @ lit_ci (lit ''Ranged'') t i"

definition attack_head :: "nat option \<Rightarrow> jsstring \<Rightarrow> nat \<Rightarrow> (nat \<times> nat \<times> nat \<times> nat) list" where
  "attack_head dmax t i = do {
     p1 \<leftarrow> keyword t i;
     n0 \<leftarrow> greedy is_space 1 None t p1;
     n1 \<leftarrow> lazy is_name_char 1 t n0;
     b0 \<leftarrow> greedy is_space 1 None t n1;
     d0 \<leftarrow> one is_sign t b0;
     b1 \<leftarrow> greedy is_digit 1 dmax t d0;
     [(n0, n1, b0, b1)]
   }"

definition detailed_re :: "nat option \<Rightarrow> jsstring \<Rightarrow> nat \<Rightarrow> rmatch list" where
  "detailed_re dmax t i = do {
     (n0, n1, b0, b1) \<leftarrow> attack_head dmax t i;
     q0 \<leftarrow> greedy (\<lambda>c. c \<noteq> 40 \<and> c \<noteq> 10 \<and> c \<noteq> 13) 0 None t b1;
     g0 \<leftarrow> one (\<lambda>c. c = 40) t q0;
     g1 \<leftarrow> greedy (\<lambda>c. c \<noteq> 41) 1 None t g0;
     e \<leftarrow> one (\<lambda>c. c = 41) t g1;
     [\<lparr>m_end = e, m2 = slice t n0 n1, m3 = slice t b0 b1, m4 = Some (slice t g0 g1)\<rparr>]
   }"

definition simple_re :: "nat option \<Rightarrow> jsstring \<Rightarrow> nat \<Rightarrow> rmatch list" where
  "simple_re dmax t i = do {
     (n0, n1, b0, b1) \<leftarrow> attack_head dmax t i;
     [\<lparr>m_end = b1, m2 = slice t n0 n1, m3 = slice t b0 b1, m4 = None\<rparr>]
   }"

text \<open>
  The two scanning loops, \<^verbatim>\<open>while ((m = re.exec(t)) !== null) attacks.push({...})\<close>.
  A match is never empty, so \<open>lastIndex\<close> grows and the loops end.
\<close>

function scan_detailed :: "nat option \<Rightarrow> jsstring \<Rightarrow> nat \<Rightarrow> attack_entry list" where
  "scan_detailed dmax t from =
     (case re_exec (detailed_re dmax) t from of
        None \<Rightarrow> []
      | Some m \<Rightarrow>
          \<lparr>name = Some (clean (Some (m2 m))), attack = Some (normalizePlus (Some (m3 m))),
           damage = Some (clean (m4 m))\<rparr> # scan_detailed dmax t (m_end m))"
  by pat_completeness auto

termination
proof (relation "measure (\<lambda>(dmax, t, from). Suc (length t) - from)", goal_cases)
  case 1
  show ?case by simp
next
  case (2 dmax t "from" m)
  then have "re_exec (detailed_re dmax) t from = Some m" by simp
  then obtain xs where "concat (map (detailed_re dmax t) [from ..< Suc (length t)]) = m # xs"
    unfolding re_exec_def by (simp split: list.splits del: upt_Suc)
  then have "m \<in> set (concat (map (detailed_re dmax t) [from ..< Suc (length t)]))"
    by (simp del: upt_Suc)
  then obtain i where i: "from \<le> i" "i \<le> length t" "m \<in> set (detailed_re dmax t i)"
    by (auto simp del: upt_Suc)
  from i(3) obtain n0 n1 b0 b1 where
    h: "(n0, n1, b0, b1) \<in> set (attack_head dmax t i)" and e: "b1 \<le> m_end m"
    unfolding detailed_re_def List.bind_def
    by (auto simp: greedy_def one_def split: if_splits)
  from h obtain p1 d0 where c: "p1 \<in> set (keyword t i)" "n0 \<in> set (greedy is_space 1 None t p1)"
    "n1 \<in> set (lazy is_name_char 1 t n0)" "b0 \<in> set (greedy is_space 1 None t n1)"
    "d0 \<in> set (one is_sign t b0)" "b1 \<in> set (greedy is_digit 1 dmax t d0)"
    unfolding attack_head_def List.bind_def by auto
  have "i < p1" using c(1) by (auto simp: keyword_def lit_ci_def lit_def split: if_splits)
  moreover have "p1 \<le> n0" "n1 \<le> b0" "d0 \<le> b1" using c(2,4,6) by (auto simp: greedy_def)
  moreover have "n0 \<le> n1" using c(3) by (auto simp: lazy_def)
  moreover have "b0 < d0" using c(5) by (auto simp: one_def split: if_splits)
  ultimately have "i < m_end m" using e by linarith
  then show ?case using i(1,2) by simp
qed

function scan_simple :: "nat option \<Rightarrow> jsstring \<Rightarrow> nat \<Rightarrow> attack_entry list" where
  "scan_simple dmax t from =
     (case re_exec (simple_re dmax) t from of
        None \<Rightarrow> []
      | Some m \<Rightarrow>
          \<lparr>name = Some (clean (Some (m2 m))), attack = Some (normalizePlus (Some (m3 m))),
           damage = None\<rparr> # scan_simple dmax t (m_end m))"
  by pat_completeness auto

termination
proof (relation "measure (\<lambda>(dmax, t, from). Suc (length t) - from)", goal_cases)
  case 1
  show ?case by simp
next
  case (2 dmax t "from" m)
  then have "re_exec (simple_re dmax) t from = Some m" by simp
  then obtain xs where "concat (map (simple_re dmax t) [from ..< Suc (length t)]) = m # xs"
    unfolding re_exec_def by (simp split: list.splits del: upt_Suc)
  then have "m \<in> set (concat (map (simple_re dmax t) [from ..< Suc (length t)]))"
    by (simp del: upt_Suc)
  then obtain i where i: "from \<le> i" "i \<le> length t" "m \<in> set (simple_re dmax t i)"
    by (auto simp del: upt_Suc)
  from i(3) obtain n0 n1 b0 b1 where
    h: "(n0, n1, b0, b1) \<in> set (attack_head dmax t i)" and e: "b1 \<le> m_end m"
    unfolding simple_re_def List.bind_def
    by (auto simp: greedy_def one_def split: if_splits)
  from h obtain p1 d0 where c: "p1 \<in> set (keyword t i)" "n0 \<in> set (greedy is_space 1 None t p1)"
    "n1 \<in> set (lazy is_name_char 1 t n0)" "b0 \<in> set (greedy is_space 1 None t n1)"
    "d0 \<in> set (one is_sign t b0)" "b1 \<in> set (greedy is_digit 1 dmax t d0)"
    unfolding attack_head_def List.bind_def by auto
  have "i < p1" using c(1) by (auto simp: keyword_def lit_ci_def lit_def split: if_splits)
  moreover have "p1 \<le> n0" "n1 \<le> b0" "d0 \<le> b1" using c(2,4,6) by (auto simp: greedy_def)
  moreover have "n0 \<le> n1" using c(3) by (auto simp: lazy_def)
  moreover have "b0 < d0" using c(5) by (auto simp: one_def split: if_splits)
  ultimately have "i < m_end m" using e by linarith
  then show ?case using i(1,2) by simp
qed

declare scan_detailed.simps [simp del] scan_simple.simps [simp del]

text \<open>
  \<^verbatim>\<open>dataloader-aon_co.js\<close>, \<open>extractAttacksFromText(t)\<close>: the detailed loop over the whole
  text, the simple loop only \<^verbatim>\<open>if (!attacks.length)\<close>, then the merge.
\<close>

definition attack_candidates :: "jsstring \<Rightarrow> attack_entry list" where
  "attack_candidates t =
     (let attacks = scan_detailed (Some 2) t 0
      in if attacks = [] then attacks @ scan_simple (Some 2) t 0 else attacks)"

definition extractAttacksFromText :: "(jsstring \<Rightarrow> jsstring) \<Rightarrow> jsstring \<Rightarrow> attack_entry list" where
  "extractAttacksFromText lc t = coalesceAttacks lc (attack_candidates t)"

text \<open>
  \<^verbatim>\<open>part_000\<close>, \<open>extractAttacks(scope)\<close>: the same two phases, each run over every block in
  turn (\<open>exec\<close> leaves \<open>lastIndex\<close> at 0 when it fails, so every block is scanned from its
  start).  The blocks come from the text of a container element of the document;
  the document tree is not modelled, and that text is the parameter \<open>raw\<close>.
\<close>

definition attack_candidates_p0 :: "jsstring list \<Rightarrow> attack_entry list" where
  "attack_candidates_p0 blocks =
     (let attacks = concat (map (\<lambda>blk. scan_detailed None blk 0) blocks)
      in if attacks = [] then attacks @ concat (map (\<lambda>blk. scan_simple None blk 0) blocks)
         else attacks)"

definition extractAttacks_blocks ::
  "(jsstring \<Rightarrow> jsstring) \<Rightarrow> jsstring list \<Rightarrow> error + attack_entry list" where
  "extractAttacks_blocks lc blocks = coalesceAttacks_p0 lc (attack_candidates_p0 blocks)"

text \<open>\<open>txt.replace(/[ \t]+/g, " ").replace(/\r/g, "").trim()\<close>\<close>

function collapse_blanks :: "jsstring \<Rightarrow> jsstring" where
  "collapse_blanks [] = []"
| "collapse_blanks (c # cs) =
     (if c = 32 \<or> c = 9 then 32 # collapse_blanks (dropWhile (\<lambda>d. d = 32 \<or> d = 9) cs)
      else c # collapse_blanks cs)"
  by pat_completeness auto

termination
  by (relation "measure length") (auto simp: length_dropWhile_le less_Suc_eq_le)

definition cleanSpaces :: "jsstring option \<Rightarrow> jsstring" where
  "cleanSpaces txt = trim (filter (\<lambda>c. c \<noteq> 13) (collapse_blanks (or_str txt [])))"

text \<open>
  \<open>raw.split(/\n{2,}/)\<close>: a separator is a maximal run of at least two line feeds; a
  single line feed stays in its piece.
\<close>

function split_blank_lines :: "jsstring \<Rightarrow> jsstring \<Rightarrow> jsstring list" where
  "split_blank_lines piece [] = [piece]"
| "split_blank_lines piece (c # cs) =
     (if c = 10 \<and> cs \<noteq> [] \<and> hd cs = 10
      then piece # split_blank_lines [] (dropWhile (\<lambda>d. d = 10) cs)
      else split_blank_lines (piece @ [c]) cs)"
  by pat_completeness auto

termination
  by (relation "measure (\<lambda>(piece, s). length s)") (auto simp: length_dropWhile_le less_Suc_eq_le)

definition textBlocks :: "jsstring \<Rightarrow> jsstring list" where
  "textBlocks raw =
     filter (\<lambda>b. b \<noteq> []) (map (\<lambda>b. cleanSpaces (Some b)) (split_blank_lines [] raw))"

definition extractAttacks :: "(jsstring \<Rightarrow> jsstring) \<Rightarrow> jsstring \<Rightarrow> error + attack_entry list" where
  "extractAttacks lc raw = extractAttacks_blocks lc (take 40 (textBlocks raw))"

section \<open>Parsing a text rendering\<close>

text \<open>
  The record the parsers assemble and the normalizer returns: the object
  \<open>{ name, level, traits, ac, hp, speed, attacks }\<close>.  A field that can hold \<open>null\<close>, or
  that \<open>normalize\<close> tests before use, is optional.
\<close>

record stat_record =
  r_name :: "jsstring option"
  r_level :: "jsnum option"
  r_traits :: "jsstring list option"
  r_ac :: "jsnum option"
  r_hp :: "jsnum option"
  r_speed :: "jsstring option"
  r_attacks :: "attack_entry list option"

text \<open>Line terminators: what \<open>.\<close> does not match and where \<open>^\<close> and \<open>$\<close> hold under the \<open>m\<close> flag.\<close>

definition is_lt :: "jschar \<Rightarrow> bool" where
  "is_lt c \<longleftrightarrow> c = 10 \<or> c = 13 \<or> c = 8232 \<or> c = 8233"

definition dot :: "jschar \<Rightarrow> bool" where
  "dot c \<longleftrightarrow> \<not> is_lt c"

text \<open>\<open>\w\<close> is \<open>[A-Za-z0-9_]\<close>.\<close>

definition is_word :: "jschar \<Rightarrow> bool" where
  "is_word c \<longleftrightarrow> (65 \<le> c \<and> c \<le> 90) \<or> (97 \<le> c \<and> c \<le> 122) \<or> is_digit c \<or> c = 95"

definition is_colon :: "jschar \<Rightarrow> bool" where
  "is_colon c \<longleftrightarrow> c = 58 \<or> c = c_fwcolon"

text \<open>The assertions: each returns the position itself when it holds there.\<close>

definition bos :: "jsstring \<Rightarrow> nat \<Rightarrow> nat list" where        \<comment> \<open>\<open>^\<close> without the \<open>m\<close> flag\<close>
  "bos t p = (if p = 0 then [p] else [])"

definition eos :: "jsstring \<Rightarrow> nat \<Rightarrow> nat list" where        \<comment> \<open>\<open>$\<close> without the \<open>m\<close> flag\<close>
  "eos t p = (if p = length t then [p] else [])"

definition bol :: "jsstring \<Rightarrow> nat \<Rightarrow> nat list" where        \<comment> \<open>\<open>^\<close> with the \<open>m\<close> flag\<close>
  "bol t p = (if p = 0 \<or> (p \<le> length t \<and> is_lt (t ! (p - 1))) then [p] else [])"

definition eol :: "jsstring \<Rightarrow> nat \<Rightarrow> nat list" where        \<comment> \<open>\<open>$\<close> with the \<open>m\<close> flag\<close>
  "eol t p = (if p = length t \<or> (p < length t \<and> is_lt (t ! p)) then [p] else [])"

text \<open>\<^verbatim>\<open>/^.*Creature\s+-?\d+.*$/gmi\<close>; the match itself is the result.\<close>

definition creature_line_re :: "jsstring \<Rightarrow> nat \<Rightarrow> jsstring list" where
  "creature_line_re t i = do {
     p0 \<leftarrow> bol t i;
     p1 \<leftarrow> greedy dot 0 None t p0;
     p2 \<leftarrow> lit_ci (lit ''Creature'') t p1;
     p3 \<leftarrow> greedy is_space 1 None t p2;
     p4 \<leftarrow> greedy (\<lambda>c. c = 45) 0 (Some 1) t p3;
     p5 \<leftarrow> greedy is_digit 1 None t p4;
     p6 \<leftarrow> greedy dot 0 None t p5;
     e \<leftarrow> eol t p6;
     [slice t i e]
   }"

text \<open>\<^verbatim>\<open>/^(.+?)\s*\(.*?Creature\s+(-?\d+)\)/i\<close>; the result is the pair of groups 1 and 2.\<close>

definition creature_paren_re :: "jsstring \<Rightarrow> nat \<Rightarrow> (jsstring \<times> jsstring) list" where
  "creature_paren_re t i = do {
     p0 \<leftarrow> bos t i;
     p1 \<leftarrow> lazy dot 1 t p0;
     p2 \<leftarrow> greedy is_space 0 None t p1;
     p3 \<leftarrow> one (\<lambda>c. c = 40) t p2;
     p4 \<leftarrow> lazy dot 0 t p3;
     p5 \<leftarrow> lit_ci (lit ''Creature'') t p4;
     p6 \<leftarrow> greedy is_space 1 None t p5;
     p7 \<leftarrow> greedy (\<lambda>c. c = 45) 0 (Some 1) t p6;
     p8 \<leftarrow> greedy is_digit 1 None t p7;
     e \<leftarrow> one (\<lambda>c. c = 41) t p8;
     [(slice t p0 p1, slice t p6 p8)]
   }"

text \<open>\<^verbatim>\<open>/^(.+?)\s+Creature\s+(-?\d+)/i\<close>\<close>

definition creature_plain_re :: "jsstring \<Rightarrow> nat \<Rightarrow> (jsstring \<times> jsstring) list" where
  "creature_plain_re t i = do {
     p0 \<leftarrow> bos t i;
     p1 \<leftarrow> lazy dot 1 t p0;
     p2 \<leftarrow> greedy is_space 1 None t p1;
     p3 \<leftarrow> lit_ci (lit ''Creature'') t p2;
     p4 \<leftarrow> greedy is_space 1 None t p3;
     p5 \<leftarrow> greedy (\<lambda>c. c = 45) 0 (Some 1) t p4;
     p6 \<leftarrow> greedy is_digit 1 None t p5;
     [(slice t p0 p1, slice t p4 p6)]
   }"

text \<open>\<^verbatim>\<open>/^\s*Traits\s*[::]\s*(.+)$/gmi\<close> (the class holds the ASCII and the full-width colon)\<close>

definition traits_line_re :: "jsstring \<Rightarrow> nat \<Rightarrow> jsstring list" where
  "traits_line_re t i = do {
     p0 \<leftarrow> bol t i;
     p1 \<leftarrow> greedy is_space 0 None t p0;
     p2 \<leftarrow> lit_ci (lit ''Traits'') t p1;
     p3 \<leftarrow> greedy is_space 0 None t p2;
     p4 \<leftarrow> one is_colon t p3;
     p5 \<leftarrow> greedy is_space 0 None t p4;
     p6 \<leftarrow> greedy dot 1 None t p5;
     e \<leftarrow> eol t p6;
     [slice t i e]
   }"

text \<open>\<^verbatim>\<open>/Traits\s*[::]\s*(.+)$/i\<close>; the result is group 1.\<close>

definition traits_re :: "jsstring \<Rightarrow> nat \<Rightarrow> jsstring list" where
  "traits_re t i = do {
     p2 \<leftarrow> lit_ci (lit ''Traits'') t i;
     p3 \<leftarrow> greedy is_space 0 None t p2;
     p4 \<leftarrow> one is_colon t p3;
     p5 \<leftarrow> greedy is_space 0 None t p4;
     p6 \<leftarrow> greedy dot 1 None t p5;
     e \<leftarrow> eos t p6;
     [slice t p5 p6]
   }"

text \<open>\<^verbatim>\<open>/(^|[^\w])AC\s+(\d+)/i\<close> and the same with \<open>HP\<close>; the result is group 2.\<close>

definition labeled_int_re :: "jsstring \<Rightarrow> jsstring \<Rightarrow> nat \<Rightarrow> jsstring list" where
  "labeled_int_re label t i = do {
     p0 \<leftarrow> bos t i @ one (\<lambda>c. \<not> is_word c) t i;
     p1 \<leftarrow> lit_ci label t p0;
     p2 \<leftarrow> greedy is_space 1 None t p1;
     p3 \<leftarrow> greedy is_digit 1 None t p2;
     [slice t p2 p3]
   }"

text \<open>\<^verbatim>\<open>/(^|\n)\s*Speed\s*([^\n]+)/i\<close>; the result is group 2.\<close>

definition speed_re :: "jsstring \<Rightarrow> nat \<Rightarrow> jsstring list" where
  "speed_re t i = do {
     p0 \<leftarrow> bos t i @ one (\<lambda>c. c = 10) t i;
     p1 \<leftarrow> greedy is_space 0 None t p0;
     p2 \<leftarrow> lit_ci (lit ''Speed'') t p1;
     p3 \<leftarrow> greedy is_space 0 None t p2;
     p4 \<leftarrow> greedy (\<lambda>c. c \<noteq> 10) 1 None t p3;
     [slice t p3 p4]
   }"

text \<open>\<^verbatim>\<open>function firstInt(re, text) { const m = text.match(re); return m ? parseInt(m[2], 10) : null; }\<close>\<close>

definition firstInt :: "jsstring \<Rightarrow> jsstring \<Rightarrow> jsnum option" where
  "firstInt label text = map_option parseInt10 (re_exec (labeled_int_re label) text 0)"

text \<open>\<open>parseText(text)\<close> of \<^verbatim>\<open>dataloader-aon_co.js\<close>.\<close>

definition parseText :: "(jsstring \<Rightarrow> jsstring) \<Rightarrow> jsstring \<Rightarrow> stat_record" where
  "parseText lc text =
     (let creatureLine = re_exec creature_line_re text 0;
          m = (case creatureLine of
                 None \<Rightarrow> None
               | Some line \<Rightarrow>
                   (case re_exec creature_paren_re line 0 of
                      Some g \<Rightarrow> Some g
                    | None \<Rightarrow> re_exec creature_plain_re line 0));
          name = map_option (\<lambda>g. clean (Some (fst g))) m;
          level = map_option (\<lambda>g. parseInt10 (snd g)) m;
          traitsLine = re_exec traits_line_re text 0;
          traits = (case traitsLine of
                      None \<Rightarrow> []
                    | Some line \<Rightarrow>
                        (case re_exec traits_re line 0 of
                           None \<Rightarrow> []
                         | Some g \<Rightarrow> splitTraits g));
          ac = firstInt (lit ''AC'') text;
          hp = firstInt (lit ''HP'') text;
          speed = map_option (\<lambda>g. clean (Some g)) (re_exec speed_re text 0);
          attacks = extractAttacksFromText lc text
      in \<lparr>r_name = name, r_level = level, r_traits = Some traits, r_ac = ac, r_hp = hp,
          r_speed = speed, r_attacks = Some attacks\<rparr>)"

text \<open>\<open>normalize(obj)\<close> of \<^verbatim>\<open>dataloader-aon_co.js\<close>.\<close>

definition normalize :: "stat_record \<Rightarrow> stat_record" where
  "normalize obj =
     \<lparr>r_name = Some (or_str (r_name obj) (lit ''Unknown'')),
      r_level = (if Number_isFinite (r_level obj) then r_level obj else None),
      r_traits = Some (case r_traits obj of Some ts \<Rightarrow> ts | None \<Rightarrow> []),
      r_ac = (if Number_isFinite (r_ac obj) then r_ac obj else None),
      r_hp = (if Number_isFinite (r_hp obj) then r_hp obj else None),
      r_speed = (case r_speed obj of None \<Rightarrow> None | Some s \<Rightarrow> if s = [] then None else Some s),
      r_attacks = Some (case r_attacks obj of Some as \<Rightarrow> as | None \<Rightarrow> [])\<rparr>"

section \<open>Retrieval and the entry point\<close>

text \<open>
  The network, the URL parser and \<open>encodeURIComponent\<close> belong to the browser and are
  parameters.  A request either is rejected (\<open>None\<close>: no connection, refused by CORS) or
  yields a response with its \<open>ok\<close> flag, its \<open>content-type\<close> header and its body;
  reading the body can be rejected in its turn.  Every function that fetches returns,
  beside its result, the list of the addresses it requested, in order.
\<close>

datatype response = Response (ok: bool) (content_type: "jsstring option") (body_text: "jsstring option")

type_synonym network = "jsstring \<Rightarrow> response option"

record url =
  href :: jsstring
  host :: jsstring
  pathname :: jsstring
  search :: jsstring

datatype kind = Html | Text

text \<open>\<open>s.includes(sub)\<close>\<close>

definition str_includes :: "jsstring \<Rightarrow> jsstring \<Rightarrow> bool" where
  "str_includes s sub \<longleftrightarrow> list_ex (\<lambda>i. take (length sub) (drop i s) = sub) [0 ..< Suc (length s)]"

text \<open>
  The first attempt of \<open>fetchAoN\<close>, the \<open>try\<close> block: a rejection of the request or of
  the body is swallowed by the empty \<open>catch\<close>, and a response that is not \<open>ok\<close> falls
  through as well.
\<close>

definition direct_attempt :: "network \<Rightarrow> jsstring \<Rightarrow> (kind \<times> jsstring) option" where
  "direct_attempt net address =
     (case net address of
        None \<Rightarrow> None
      | Some r \<Rightarrow>
          if ok r then
            (let ct = or_str (content_type r) [] in
             case body_text r of
               None \<Rightarrow> None
             | Some text \<Rightarrow> Some (if str_includes ct (lit ''text/html'') then Html else Text, text))
          else None)"

text \<open>
  The second attempt, outside any \<open>try\<close>: a rejection propagates to the caller, a
  response that is not \<open>ok\<close> throws \<open>Error("Fetch failed via mirror")\<close>.
\<close>

definition mirror_attempt :: "network \<Rightarrow> jsstring \<Rightarrow> error + jsstring" where
  "mirror_attempt net address =
     (case net address of
        None \<Rightarrow> Inl FetchRejected
      | Some r2 \<Rightarrow>
          if \<not> ok r2 then Inl FetchFailedMirror
          else (case body_text r2 of None \<Rightarrow> Inl FetchRejected | Some text2 \<Rightarrow> Inr text2))"

definition mirror_address :: "(jsstring \<Rightarrow> jsstring) \<Rightarrow> url \<Rightarrow> jsstring" where
  "mirror_address enc u =
     lit ''https://r.jina.ai/http/'' @
     enc (lit ''http://'' @ host u @ pathname u @ or_str (Some (search u)) [])"

definition fetchAoN ::
  "(jsstring \<Rightarrow> url option) \<Rightarrow> (jsstring \<Rightarrow> jsstring) \<Rightarrow> network \<Rightarrow> jsstring
     \<Rightarrow> jsstring list \<times> (error + kind \<times> jsstring)" where
  "fetchAoN parseURL enc net rawUrl =
     (case parseURL rawUrl of
        None \<Rightarrow> ([], Inl InvalidURL)
      | Some u \<Rightarrow>
          (case direct_attempt net (href u) of
             Some r \<Rightarrow> ([href u], Inr r)
           | None \<Rightarrow>
               ([href u, mirror_address enc u],
                map_sum id (\<lambda>text2. (Text, text2)) (mirror_attempt net (mirror_address enc u)))))"

text \<open>
  \<open>importFromLink(url)\<close> of \<^verbatim>\<open>dataloader-aon_co.js\<close>.  The HTML parser works on the
  document tree of the browser and is the parameter \<open>parseHtml\<close>; it returns an object,
  so \<open>!out\<close> is false.
\<close>

definition sanity_fails :: "stat_record \<Rightarrow> bool" where
  "sanity_fails out \<longleftrightarrow>
     or_str (r_name out) [] = [] \<and> \<not> isFinite (r_level out) \<and> \<not> isFinite (r_hp out)"

definition importFromLink ::
  "(jsstring \<Rightarrow> url option) \<Rightarrow> (jsstring \<Rightarrow> jsstring) \<Rightarrow> network \<Rightarrow> (jsstring \<Rightarrow> stat_record)
     \<Rightarrow> (jsstring \<Rightarrow> jsstring) \<Rightarrow> jsstring \<Rightarrow> jsstring list \<times> (error + stat_record)" where
  "importFromLink parseURL enc net parseHtml lc url =
     (case fetchAoN parseURL enc net url of
        (requests, Inl e) \<Rightarrow> (requests, Inl e)
      | (requests, Inr (kind, body)) \<Rightarrow>
          (let out = (if kind = Html then parseHtml body else parseText lc body)
           in if sanity_fails out then (requests, Inl ParseFailed)
              else (requests, Inr (normalize out))))"




definition assemble ::
  "jsstring option \<Rightarrow> jsnum option \<Rightarrow> jsstring list \<Rightarrow> jsnum option \<Rightarrow> jsnum option
     \<Rightarrow> jsstring option \<Rightarrow> attack_entry list \<Rightarrow> stat_record" where
  "assemble name' level' traits' ac' hp' speed' attacks' =
     \<lparr>r_name = Some (or_str name' (lit ''Unknown'')),
      r_level = (if Number_isFinite level' then level' else None),
      r_traits = Some traits',
      r_ac = (if Number_isFinite ac' then ac' else None),
      r_hp = (if Number_isFinite hp' then hp' else None),
      r_speed = (case speed' of None \<Rightarrow> None | Some s \<Rightarrow> if s = [] then None else Some s),
      r_attacks = Some attacks'\<rparr>"


section \<open>Predicates of the statements\<close>

text \<open>A candidate whose bonus \<open>parseInt\<close> reads as a number, finite or infinite.\<close>

definition numeric_bonus :: "attack_entry \<Rightarrow> bool" where
  "numeric_bonus a \<longleftrightarrow> bonusNum a \<noteq> NaN"

text \<open>
  \<open>kept_at lc list i\<close>: among the candidates of \<open>list\<close> that share the key of the
  \<open>i\<close>-th, none has a bonus greater than the \<open>i\<close>-th, and the bonus of the \<open>i\<close>-th is
  greater than that of each earlier one: the \<open>i\<close>-th has the largest bonus and is the
  first to have it.  The comparison is that of the merge, on the numbers that
  \<open>bonusNum\<close> reads.
\<close>

definition kept_at :: "(jsstring \<Rightarrow> jsstring) \<Rightarrow> attack_entry list \<Rightarrow> nat \<Rightarrow> bool" where
  "kept_at lc list i \<longleftrightarrow>
     i < length list \<and>
     (\<forall>j < length list. attack_key lc (list ! j) = attack_key lc (list ! i) \<longrightarrow>
        \<not> js_gt (bonusNum (list ! j)) (bonusNum (list ! i)) \<and>
        (j < i \<longrightarrow> js_gt (bonusNum (list ! i)) (bonusNum (list ! j))))"

text \<open>
  The bonus as the specification words it, ``parsed as an integer with its sign
  stripped'': the sign character, plus or minus, is dropped and the digits are read.
  This definition follows those words and not the code, which drops a plus sign only
  (\<open>bonusNum\<close>); it serves to compare the two.
\<close>

definition sign_stripped_bonus :: "attack_entry \<Rightarrow> jsnum" where
  "sign_stripped_bonus a =
     parseInt10 (case or_str (attack a) (lit ''0'') of
                   [] \<Rightarrow> []
                 | c # cs \<Rightarrow> if c = 43 \<or> c = 45 then cs else c # cs)"

text \<open>The invariants of the merge loop.\<close>

definition merge_inv :: "(jsstring \<Rightarrow> jsstring) \<Rightarrow> (jsstring, attack_entry) jsmap \<Rightarrow> bool" where
  "merge_inv lc m \<longleftrightarrow> distinct (map fst m) \<and> (\<forall>(k, v) \<in> set m. attack_key lc v = k)"

definition keeps ::
  "(jsstring \<Rightarrow> jsstring) \<Rightarrow> attack_entry list \<Rightarrow> (jsstring, attack_entry) jsmap \<Rightarrow> bool" where
  "keeps lc pre m \<longleftrightarrow>
     (\<forall>k. map_get m k = None \<longleftrightarrow> k \<notin> attack_key lc ` set pre) \<and>
     (\<forall>k e. map_get m k = Some e \<longrightarrow>
        attack_key lc e = k \<and> (\<exists>i. kept_at lc pre i \<and> pre ! i = e))"

text \<open>A text in which no sign is followed by more than two digits.\<close>

definition short_bonuses :: "jsstring \<Rightarrow> bool" where
  "short_bonuses t \<longleftrightarrow> (\<forall>p < length t. is_sign (t ! p) \<longrightarrow> run is_digit t (Suc p) \<le> 2)"



text \<open>A field that holds a finite integer or is absent.\<close>

definition int_or_absent :: "jsnum option \<Rightarrow> bool" where
  "int_or_absent v \<longleftrightarrow> v = None \<or> (\<exists>n. v = Some (Num n))"

text \<open>
  The shape of a captured bonus, a sign followed by digits, and of a scanned candidate:
  a name and a bonus free of the typographic minus.
\<close>

definition signed_digits :: "jsstring \<Rightarrow> bool" where
  "signed_digits s \<longleftrightarrow> (\<exists>c ds. s = c # ds \<and> is_sign c \<and> ds \<noteq> [] \<and> (\<forall>d \<in> set ds. is_digit d))"

definition plain_bonus :: "attack_entry \<Rightarrow> bool" where
  "plain_bonus a \<longleftrightarrow> (\<exists>s. attack a = Some s \<and> c_minus \<notin> set s \<and> signed_digits s) \<and> name a \<noteq> None"

section \<open>Example inputs\<close>

text \<open>Attack candidates that share the name ``claw'' up to case.\<close>

definition claw18 :: attack_entry where
  "claw18 = \<lparr>name = Some (lit ''Claw''), attack = Some (lit ''+18''), damage = Some (lit ''2d8+9 piercing'')\<rparr>"

definition claw12 :: attack_entry where
  "claw12 = \<lparr>name = Some (lit ''claw''), attack = Some (lit ''+12''), damage = Some (lit ''2d8+9 piercing'')\<rparr>"

definition claw_plain :: attack_entry where
  "claw_plain = \<lparr>name = Some (lit ''claw''), attack = None, damage = None\<rparr>"

definition claw1 :: attack_entry where
  "claw1 = \<lparr>name = Some (lit ''CLAW''), attack = Some (lit ''+1''), damage = None\<rparr>"

definition claw_neg18 :: attack_entry where
  "claw_neg18 = \<lparr>name = Some (lit ''claw''), attack = Some (lit ''-18''), damage = Some (lit ''2d8+9 piercing'')\<rparr>"

text \<open>Two bonuses of sixteen digits, as the pattern of \<^verbatim>\<open>part_000\<close> can capture them.\<close>

definition claw_big :: attack_entry where
  "claw_big = \<lparr>name = Some (lit ''claw''), attack = Some (lit ''+9007199254740992''), damage = None\<rparr>"

definition claw_bigger :: attack_entry where
  "claw_bigger = \<lparr>name = Some (lit ''claw''), attack = Some (lit ''+9007199254740993''), damage = None\<rparr>"

definition bite7 :: attack_entry where
  "bite7 = \<lparr>name = Some (lit ''bite''), attack = Some (lit ''+7''), damage = None\<rparr>"

text \<open>Text blocks with one attack line each.\<close>

definition blk123 :: jsstring where "blk123 = lit ''Melee a +123(1)''"

definition blk18 :: jsstring where "blk18 = lit ''Melee claw +18 (2d8)''"

definition blk_minus :: jsstring where "blk_minus = lit ''Melee claw '' @ [c_minus] @ lit ''5''"

text \<open>
  A record as a parser may leave it, what the extractors of \<^verbatim>\<open>part_000\<close> find on an empty
  document, an address, and networks: one that rejects every request, one that answers
  every request with an error status, one that serves a page directly.
\<close>

definition obj_blank :: stat_record where
  "obj_blank = \<lparr>r_name = Some [], r_level = Some NaN, r_traits = None, r_ac = Some PosInf,
     r_hp = Some (Num 150), r_speed = Some [], r_attacks = None\<rparr>"


definition url0 :: url where
  "url0 = \<lparr>href = lit ''https://2e.aonprd.com/Monsters.aspx?ID=1'', host = lit ''2e.aonprd.com'',
     pathname = lit ''/Monsters.aspx'', search = lit ''?ID=1''\<rparr>"




text \<open>
  The usual case: the direct request is refused and the second route delivers the page
  as text.
\<close>

definition net_mirror :: "jsstring \<Rightarrow> network" where
  "net_mirror page = (\<lambda>a. if a = href url0 then None else Some (Response True None (Some page)))"

definition page_traits :: jsstring where
  "page_traits = lit ''Traits: Evil, Evil''"

section \<open>The merge of attack candidates\<close>

subsection \<open>The insertion-ordered map\<close>

lemma map_get_map_set: "map_get (map_set m k v) k' = (if k' = k then Some v else map_get m k')"
  by (induction m) (auto simp: map_get_def)

lemma keys_map_set:
  "map fst (map_set m k v) = (if k \<in> fst ` set m then map fst m else map fst m @ [k])"
  by (induction m) force+

lemma in_map_set: "(k', v') \<in> set (map_set m k v) \<Longrightarrow> (k', v') = (k, v) \<or> (k', v') \<in> set m"
  by (induction m) (auto split: if_splits)

lemma map_set_same: "map_get m k = Some v \<Longrightarrow> map_set m k v = m"
  by (induction m) (auto simp: map_get_def split: if_splits)

lemma map_get_in: "map_get m k = Some v \<Longrightarrow> (k, v) \<in> set m"
  by (simp add: map_get_def map_of_SomeD)

lemma map_get_None: "map_get m k = None \<longleftrightarrow> k \<notin> fst ` set m"
  by (simp add: map_get_def map_of_eq_None_iff)

lemma merge_inv_set:
  assumes "merge_inv lc m" "attack_key lc a = k"
  shows "merge_inv lc (map_set m k a)"
proof -
  have "distinct (map fst (map_set m k a))"
    using assms(1) by (auto simp: keys_map_set merge_inv_def)
  moreover have "\<forall>(k', v) \<in> set (map_set m k a). attack_key lc v = k'"
    using assms in_map_set[of _ _ m k a] by (fastforce simp: merge_inv_def)
  ultimately show ?thesis by (simp add: merge_inv_def)
qed

lemma merge_inv_step: "merge_inv lc m \<Longrightarrow> merge_inv lc (coalesce_step lc a m)"
  by (auto simp: coalesce_step_def Let_def merge_inv_set split: option.splits)

lemma merge_inv_fold: "merge_inv lc m \<Longrightarrow> merge_inv lc (fold (coalesce_step lc) list m)"
  by (induction list arbitrary: m) (auto simp: merge_inv_step)

lemma merge_inv_keys: "merge_inv lc m \<Longrightarrow> map (attack_key lc) (map_values m) = map fst m"
  unfolding merge_inv_def map_values_def by (induction m) auto

lemma coalesce_distinct: "distinct (map (attack_key lc) (coalesceAttacks lc list))"
proof -
  have "merge_inv lc (fold (coalesce_step lc) list [])"
    by (rule merge_inv_fold) (simp add: merge_inv_def)
  then show ?thesis
    unfolding coalesceAttacks_def by (simp add: merge_inv_keys merge_inv_def)
qed

lemma coalesce_step_p0:
  "name a = Some n \<Longrightarrow>
   coalesce_step lc a m =
     (case map_get m (lc n) of
        None \<Rightarrow> map_set m (lc n) a
      | Some prev \<Rightarrow> map_set m (lc n) (if js_gt (bonusNum a) (bonusNum prev) then a else prev))"
proof -
  assume n: "name a = Some n"
  have k: "attack_key lc a = lc n"
    using n by (cases "n = []") (simp_all add: attack_key_def)
  show ?thesis
    by (simp add: coalesce_step_def k map_set_same split: option.splits)
qed

lemma coalesce_loop_p0_eq:
  "coalesce_loop_p0 lc m list =
     (if \<forall>a\<in>set list. name a \<noteq> None then Inr (fold (coalesce_step lc) list m) else Inl TypeError)"
proof (induction list arbitrary: m)
  case Nil
  then show ?case by simp
next
  case (Cons a as)
  show ?case
  proof (cases "name a")
    case None
    then show ?thesis by auto
  next
    case (Some n)
    then show ?thesis
      by (auto simp: Cons.IH coalesce_step_p0 Let_def split: option.splits)
  qed
qed

lemma coalesceAttacks_p0_eq:
  "coalesceAttacks_p0 lc list =
     (if \<forall>a\<in>set list. name a \<noteq> None then Inr (coalesceAttacks lc list) else Inl TypeError)"
  by (simp add: coalesceAttacks_p0_def coalesceAttacks_def coalesce_loop_p0_eq)

lemma js_gt_irrefl: "\<not> js_gt x x"
  by (cases x) simp_all

lemma js_gt_asym: "js_gt x y \<Longrightarrow> \<not> js_gt y x"
  by (cases x; cases y) simp_all

lemma js_gt_above: "js_gt x p \<Longrightarrow> \<not> js_gt y p \<Longrightarrow> y \<noteq> NaN \<Longrightarrow> js_gt x y"
  by (cases x; cases p; cases y) simp_all

lemma keepsD:
  "keeps lc pre m \<Longrightarrow> map_get m k = Some e \<Longrightarrow>
     attack_key lc e = k \<and> (\<exists>i. kept_at lc pre i \<and> pre ! i = e)"
  unfolding keeps_def by blast

lemma kept_at_snoc_other:
  assumes "kept_at lc pre i" "attack_key lc a \<noteq> attack_key lc (pre ! i)"
  shows "kept_at lc (pre @ [a]) i"
  using assms unfolding kept_at_def
  by (auto simp: nth_append less_Suc_eq)

lemma kept_at_snoc_le:
  assumes "kept_at lc pre i" "\<not> js_gt (bonusNum a) (bonusNum (pre ! i))"
  shows "kept_at lc (pre @ [a]) i"
  using assms unfolding kept_at_def
  by (auto simp: nth_append less_Suc_eq)

lemma kept_at_snoc_new:
  assumes "\<forall>j < length pre. attack_key lc (pre ! j) = attack_key lc a \<longrightarrow>
             js_gt (bonusNum a) (bonusNum (pre ! j))"
  shows "kept_at lc (pre @ [a]) (length pre)"
  using assms unfolding kept_at_def
  by (auto simp: nth_append less_Suc_eq js_gt_irrefl dest: js_gt_asym)

lemma keeps_step:
  assumes K: "keeps lc pre m" and N: "\<forall>x \<in> set (pre @ [a]). numeric_bonus x"
  shows "keeps lc (pre @ [a]) (coalesce_step lc a m)"
proof (cases "map_get m (attack_key lc a)")
  case None
  then have fresh: "attack_key lc a \<notin> attack_key lc ` set pre"
    using K by (simp add: keeps_def)
  have new: "kept_at lc (pre @ [a]) (length pre)"
  proof (rule kept_at_snoc_new, intro allI impI)
    fix j assume "j < length pre" "attack_key lc (pre ! j) = attack_key lc a"
    then have "attack_key lc a \<in> attack_key lc ` set pre" by (metis nth_mem image_eqI)
    with fresh show "js_gt (bonusNum a) (bonusNum (pre ! j))" by simp
  qed
  have step: "coalesce_step lc a m = map_set m (attack_key lc a) a"
    using None by (simp add: coalesce_step_def)
  show ?thesis
    unfolding keeps_def step map_get_map_set
  proof (intro conjI allI impI)
    fix k show "((if k = attack_key lc a then Some a else map_get m k) = None) = (k \<notin> attack_key lc ` set (pre @ [a]))"
      using K by (auto simp: keeps_def)
  next
    fix k e assume "(if k = attack_key lc a then Some a else map_get m k) = Some e"
    then show "attack_key lc e = k" using K by (auto simp: keeps_def split: if_splits)
  next
    fix k e assume h: "(if k = attack_key lc a then Some a else map_get m k) = Some e"
    show "\<exists>i. kept_at lc (pre @ [a]) i \<and> (pre @ [a]) ! i = e"
    proof (cases "k = attack_key lc a")
      case True
      then have "e = a" using h by simp
      then show ?thesis using new by (intro exI[of _ "length pre"]) simp
    next
      case False
      then have g: "map_get m k = Some e" using h by simp
      then obtain i where i: "kept_at lc pre i" "pre ! i = e" "attack_key lc e = k"
        using keepsD[OF K] by blast
      have "kept_at lc (pre @ [a]) i"
        by (rule kept_at_snoc_other[OF i(1)]) (use i False in simp)
      moreover have "(pre @ [a]) ! i = e" using i by (simp add: kept_at_def nth_append)
      ultimately show ?thesis by blast
    qed
  qed
next
  case (Some prev)
  then obtain p where p: "kept_at lc pre p" "pre ! p = prev" "attack_key lc prev = attack_key lc a"
    using keepsD[OF K] by blast
  have pin: "prev \<in> set pre" using p by (auto simp: kept_at_def)
  have dom: "attack_key lc a \<in> attack_key lc ` set pre"
    using K Some by (metis keeps_def option.distinct(1))
  show ?thesis
  proof (cases "js_gt (bonusNum a) (bonusNum prev)")
    case True
    have step: "coalesce_step lc a m = map_set m (attack_key lc a) a"
      using Some True by (simp add: coalesce_step_def)
    have new: "kept_at lc (pre @ [a]) (length pre)"
    proof (rule kept_at_snoc_new, intro allI impI)
      fix j assume "j < length pre" "attack_key lc (pre ! j) = attack_key lc a"
      then have "\<not> js_gt (bonusNum (pre ! j)) (bonusNum prev)" and "bonusNum (pre ! j) \<noteq> NaN"
        using p N by (auto simp: kept_at_def numeric_bonus_def)
      with True show "js_gt (bonusNum a) (bonusNum (pre ! j))" by (rule js_gt_above)
    qed
    show ?thesis
      unfolding keeps_def step map_get_map_set
    proof (intro conjI allI impI)
      fix k show "((if k = attack_key lc a then Some a else map_get m k) = None) = (k \<notin> attack_key lc ` set (pre @ [a]))"
        using K by (auto simp: keeps_def)
    next
      fix k e assume "(if k = attack_key lc a then Some a else map_get m k) = Some e"
      then show "attack_key lc e = k" using K by (auto simp: keeps_def split: if_splits)
    next
      fix k e assume h: "(if k = attack_key lc a then Some a else map_get m k) = Some e"
      show "\<exists>i. kept_at lc (pre @ [a]) i \<and> (pre @ [a]) ! i = e"
      proof (cases "k = attack_key lc a")
        case True
        then have "e = a" using h by simp
        then show ?thesis using new by (intro exI[of _ "length pre"]) simp
      next
        case False
        then have g: "map_get m k = Some e" using h by simp
        then obtain i where i: "kept_at lc pre i" "pre ! i = e" "attack_key lc e = k"
          using keepsD[OF K] by blast
        have "kept_at lc (pre @ [a]) i"
          by (rule kept_at_snoc_other[OF i(1)]) (use i False in simp)
        moreover have "(pre @ [a]) ! i = e" using i by (simp add: kept_at_def nth_append)
        ultimately show ?thesis by blast
      qed
    qed
  next
    case False
    have step: "coalesce_step lc a m = m"
      using Some False by (simp add: coalesce_step_def)
    show ?thesis
      unfolding keeps_def step
    proof (intro conjI allI impI)
      fix k show "(map_get m k = None) = (k \<notin> attack_key lc ` set (pre @ [a]))"
        using K dom by (auto simp: keeps_def)
    next
      fix k e assume "map_get m k = Some e"
      then show "attack_key lc e = k" using K by (auto simp: keeps_def)
    next
      fix k e assume g: "map_get m k = Some e"
      then obtain i where i: "kept_at lc pre i" "pre ! i = e" "attack_key lc e = k"
        using keepsD[OF K] by blast
      have "kept_at lc (pre @ [a]) i"
      proof (cases "k = attack_key lc a")
        case True
        then have "e = prev" using g Some by simp
        then show ?thesis using False i by (intro kept_at_snoc_le) auto
      next
        case False
        then show ?thesis using i by (intro kept_at_snoc_other) auto
      qed
      moreover have "(pre @ [a]) ! i = e" using i by (simp add: kept_at_def nth_append)
      ultimately show "\<exists>i. kept_at lc (pre @ [a]) i \<and> (pre @ [a]) ! i = e" by blast
    qed
  qed
qed

lemma keeps_fold:
  "\<forall>x \<in> set list. numeric_bonus x \<Longrightarrow> keeps lc list (fold (coalesce_step lc) list [])"
proof (induction list rule: rev_induct)
  case Nil
  show ?case by (simp add: keeps_def map_get_def)
next
  case (snoc a pre)
  then have "keeps lc pre (fold (coalesce_step lc) pre [])" by simp
  then have "keeps lc (pre @ [a]) (coalesce_step lc a (fold (coalesce_step lc) pre []))"
    using snoc.prems by (rule keeps_step)
  then show ?case by simp
qed

lemma values_map_get: "distinct (map fst m) \<Longrightarrow> e \<in> set (map_values m) \<longleftrightarrow> (\<exists>k. map_get m k = Some e)"
proof
  assume "distinct (map fst m)" "e \<in> set (map_values m)"
  then obtain k where "(k, e) \<in> set m" by (auto simp: map_values_def)
  with \<open>distinct (map fst m)\<close> show "\<exists>k. map_get m k = Some e"
    by (auto simp: map_get_def)
next
  assume "\<exists>k. map_get m k = Some e"
  then obtain k where "(k, e) \<in> set m" by (auto simp: map_get_def dest: map_of_SomeD)
  then show "e \<in> set (map_values m)" by (force simp: map_values_def)
qed

lemma coalesce_kept:
  assumes "\<forall>x \<in> set list. numeric_bonus x"
  shows "(\<forall>e \<in> set (coalesceAttacks lc list). \<exists>i. kept_at lc list i \<and> list ! i = e) \<and>
         attack_key lc ` set (coalesceAttacks lc list) = attack_key lc ` set list"
proof -
  let ?m = "fold (coalesce_step lc) list []"
  have K: "keeps lc list ?m" using assms by (rule keeps_fold)
  have I: "merge_inv lc ?m" by (rule merge_inv_fold) (simp add: merge_inv_def)
  then have D: "distinct (map fst ?m)" by (simp add: merge_inv_def)
  have 1: "\<forall>e \<in> set (coalesceAttacks lc list). \<exists>i. kept_at lc list i \<and> list ! i = e"
    using keepsD[OF K] by (auto simp: coalesceAttacks_def values_map_get[OF D])
  have "attack_key lc ` set (map_values ?m) = fst ` set ?m"
    using merge_inv_keys[OF I] by (metis set_map)
  also have "\<dots> = attack_key lc ` set list"
    using K by (auto simp: keeps_def map_get_None)
  finally show ?thesis using 1 by (simp add: coalesceAttacks_def)
qed

lemma to_number_cases: "to_number neg m \<noteq> NaN"
  by (simp add: to_number_def Let_def)

lemma js_gt_zero:
  "js_gt x (Num 0) \<longleftrightarrow> (\<exists>n. x = Num n \<and> 0 < n) \<or> x = PosInf"
  by (cases x) simp_all

lemma bonusNum_missing: "attack p = None \<or> attack p = Some [] \<Longrightarrow> bonusNum p = Num 0"
  by (auto simp: bonusNum_def lit_def parseInt10_def to_number_def is_space_def is_digit_def
      digits_value_def)

lemma values_map_set:
  assumes "merge_inv lc m" "map_get m k = Some p" "attack_key lc p = k"
  shows "map_values (map_set m k a) = map (\<lambda>x. if x = p then a else x) (map_values m)"
  using assms
proof (induction m)
  case Nil
  then show ?case by (simp add: map_get_def)
next
  case (Cons kv m)
  obtain k' v' where kv: "kv = (k', v')" by (cases kv)
  have inv: "merge_inv lc m" and kv': "attack_key lc v' = k'" and fresh: "k' \<notin> fst ` set m"
    using Cons.prems(1) by (auto simp: merge_inv_def kv)
  show ?case
  proof (cases "k' = k")
    case True
    then have vp: "v' = p" using Cons.prems(2) by (simp add: kv map_get_def)
    have "\<forall>x \<in> set (map_values m). x \<noteq> p"
    proof
      fix x assume "x \<in> set (map_values m)"
      then obtain k'' where in_m: "(k'', x) \<in> set m" by (auto simp: map_values_def)
      then have "attack_key lc x = k''" using inv by (auto simp: merge_inv_def)
      moreover have "k'' \<noteq> k" using in_m fresh True by force
      ultimately show "x \<noteq> p" using Cons.prems(3) by auto
    qed
    then have "map (\<lambda>x. if x = p then a else x) (map_values m) = map_values m"
      by (simp add: map_idI)
    then show ?thesis using True vp by (simp add: kv map_values_def)
  next
    case False
    then have "v' \<noteq> p" using kv' Cons.prems(3) by auto
    moreover have "map_get m k = Some p" using Cons.prems(2) False by (simp add: kv map_get_def)
    ultimately show ?thesis
      using Cons.IH[OF inv _ Cons.prems(3)] False by (simp add: kv map_values_def)
  qed
qed

lemma coalesce_snoc: "coalesceAttacks lc (pre @ [a]) = map_values (coalesce_step lc a (fold (coalesce_step lc) pre []))"
  by (simp add: coalesceAttacks_def)

lemma fold_inv: "merge_inv lc (fold (coalesce_step lc) list [])"
  by (rule merge_inv_fold) (simp add: merge_inv_def)

lemma coalesce_lookup:
  assumes "p \<in> set (coalesceAttacks lc pre)"
  shows "map_get (fold (coalesce_step lc) pre []) (attack_key lc p) = Some p"
proof -
  let ?m = "fold (coalesce_step lc) pre []"
  have I: "merge_inv lc ?m" by (rule fold_inv)
  then have D: "distinct (map fst ?m)" by (simp add: merge_inv_def)
  from assms obtain k where k: "map_get ?m k = Some p"
    unfolding coalesceAttacks_def values_map_get[OF D] by blast
  then have "(k, p) \<in> set ?m" by (rule map_get_in)
  then have "attack_key lc p = k" using I by (auto simp: merge_inv_def)
  then show ?thesis using k by simp
qed

lemma coalesce_missing:
  assumes "p \<in> set (coalesceAttacks lc pre)" "attack_key lc p = attack_key lc a"
    "attack p = None \<or> attack p = Some []"
  shows "coalesceAttacks lc (pre @ [a]) =
           (if js_gt (bonusNum a) (Num 0)
            then map (\<lambda>x. if x = p then a else x) (coalesceAttacks lc pre)
            else coalesceAttacks lc pre)"
proof -
  let ?m = "fold (coalesce_step lc) pre []"
  have g: "map_get ?m (attack_key lc a) = Some p"
    using coalesce_lookup[OF assms(1)] assms(2) by simp
  have z: "bonusNum p = Num 0" using assms(3) by (rule bonusNum_missing)
  have step: "coalesce_step lc a ?m =
      (if js_gt (bonusNum a) (Num 0) then map_set ?m (attack_key lc a) a else ?m)"
    using g z by (simp add: coalesce_step_def)
  show ?thesis
  proof (cases "js_gt (bonusNum a) (Num 0)")
    case True
    have "coalesceAttacks lc (pre @ [a]) = map_values (map_set ?m (attack_key lc a) a)"
      unfolding coalesce_snoc step using True by simp
    also have "\<dots> = map (\<lambda>x. if x = p then a else x) (map_values ?m)"
      by (rule values_map_set[OF fold_inv g assms(2)])
    also have "\<dots> = map (\<lambda>x. if x = p then a else x) (coalesceAttacks lc pre)"
      by (simp only: coalesceAttacks_def)
    finally show ?thesis using True by simp
  next
    case False
    have "coalesceAttacks lc (pre @ [a]) = map_values ?m"
      unfolding coalesce_snoc step using False by simp
    also have "\<dots> = coalesceAttacks lc pre"
      by (simp only: coalesceAttacks_def)
    finally show ?thesis using False by simp
  qed
qed

subsection \<open>Evaluation of the merge on the examples\<close>

lemmas eval_defs = coalesceAttacks_def coalesce_step_def attack_key_def map_get_def map_values_def
  bonusNum_def parseInt10_def to_number_def digits_value_def lit_def ascii_lower_def is_space_def
  is_digit_def numeric_bonus_def

lemma bit_length_numeral [simp]:
  "bit_length (numeral (num.Bit0 n)) = Suc (bit_length (numeral n))"
  "bit_length (numeral (num.Bit1 n)) = Suc (bit_length (numeral n))"
  "bit_length 1 = 1" "bit_length 0 = 0"
  by (subst bit_length.simps, simp)+

text \<open>
  Two bonuses of seventeen digits that differ as integers are the same number: \<open>2^53 + 1\<close>
  lies halfway between two numbers and goes to the even one, \<open>2^53\<close>.  The merge sees a
  tie and keeps whichever came first.
\<close>

lemma bonus_rounds:
  "bonusNum claw_big = Num 9007199254740992 \<and> bonusNum claw_bigger = Num 9007199254740992"
  by (simp add: claw_big_def claw_bigger_def eval_defs round_double_def Let_def)

lemma coalesce_rounding_tie:
  "coalesceAttacks ascii_lower [claw_big, claw_bigger] = [claw_big] \<and>
   coalesceAttacks ascii_lower [claw_bigger, claw_big] = [claw_bigger]"
  by (simp add: claw_big_def claw_bigger_def eval_defs round_double_def Let_def)

section \<open>The attack scan\<close>

subsection \<open>What a match captures\<close>

lemma re_exec_Some:
  assumes "re_exec re t from = Some m"
  shows "\<exists>i. from \<le> i \<and> i \<le> length t \<and> m \<in> set (re t i)"
proof -
  obtain xs where "concat (map (re t) [from ..< Suc (length t)]) = m # xs"
    using assms unfolding re_exec_def by (simp split: list.splits del: upt_Suc)
  then have "m \<in> set (concat (map (re t) [from ..< Suc (length t)]))"
    by (simp del: upt_Suc)
  then show ?thesis by (auto simp del: upt_Suc)
qed

lemma scan_simple_damage: "a \<in> set (scan_simple dmax t from) \<Longrightarrow> damage a = None"
proof (induction dmax t "from" rule: scan_simple.induct)
  case (1 dmax t "from")
  show ?case
  proof (cases "re_exec (simple_re dmax) t from")
    case None
    then show ?thesis using 1(2) by (subst (asm) scan_simple.simps) simp
  next
    case (Some m)
    then show ?thesis using 1
      by (subst (asm) (2) scan_simple.simps) auto
  qed
qed

lemma scan_detailed_damage: "a \<in> set (scan_detailed dmax t from) \<Longrightarrow> damage a \<noteq> None"
proof (induction dmax t "from" rule: scan_detailed.induct)
  case (1 dmax t "from")
  show ?case
  proof (cases "re_exec (detailed_re dmax) t from")
    case None
    then show ?thesis using 1(2) by (subst (asm) scan_detailed.simps) simp
  next
    case (Some m)
    then show ?thesis using 1
      by (subst (asm) (2) scan_detailed.simps) auto
  qed
qed

lemma take_run: "k \<le> run P t p \<Longrightarrow> \<forall>d \<in> set (take k (drop p t)). P d"
proof -
  assume k: "k \<le> run P t p"
  have "take k (drop p t) = take k (takeWhile P (drop p t) @ dropWhile P (drop p t))" by simp
  also have "\<dots> = take k (takeWhile P (drop p t))" using k by (simp add: run_def del: takeWhile_dropWhile_id)
  finally have "set (take k (drop p t)) \<subseteq> set (takeWhile P (drop p t))"
    by (simp add: set_take_subset)
  then show ?thesis by (auto dest: set_takeWhileD)
qed

lemma attack_head_bonus:
  assumes "(n0, n1, b0, b1) \<in> set (attack_head dmax t i)"
  shows "signed_digits (slice t b0 b1)"
proof -
  from assms obtain d0 where d0: "d0 \<in> set (one is_sign t b0)" and b1: "b1 \<in> set (greedy is_digit 1 dmax t d0)"
    unfolding attack_head_def List.bind_def by auto
  from d0 have s: "b0 < length t" "is_sign (t ! b0)" "d0 = Suc b0"
    by (auto simp: one_def split: if_splits)
  from b1 obtain k where k: "b1 = d0 + k" "1 \<le> k" "k \<le> run is_digit t d0"
    by (auto simp: greedy_def split: option.splits)
  have "k \<le> length (drop d0 t)" using k(3) length_takeWhile_le[of is_digit "drop d0 t"] by (simp add: run_def)
  then have ne: "take k (drop d0 t) \<noteq> []" using k(2) by auto
  have "slice t b0 b1 = take (Suc k) (drop b0 t)" by (simp add: slice_def k s)
  also have "\<dots> = t ! b0 # take k (drop d0 t)"
    using s by (simp add: Cons_nth_drop_Suc[symmetric])
  finally show ?thesis
    using s(2) take_run[OF k(3)] ne by (auto simp: signed_digits_def)
qed

lemma detailed_bonus: "m \<in> set (detailed_re dmax t i) \<Longrightarrow> signed_digits (m3 m)"
  unfolding detailed_re_def List.bind_def by (auto dest: attack_head_bonus)

lemma simple_bonus: "m \<in> set (simple_re dmax t i) \<Longrightarrow> signed_digits (m3 m)"
  unfolding simple_re_def List.bind_def by (auto dest: attack_head_bonus)

lemma replace_first_absent: "p \<notin> set s \<Longrightarrow> replace_first p r s = s"
  by (induction s) auto

lemma normalizePlus_signed:
  assumes "signed_digits s"
  shows "c_minus \<notin> set (normalizePlus (Some s)) \<and> signed_digits (normalizePlus (Some s))"
proof -
  from assms obtain c ds where s: "s = c # ds" "is_sign c" "ds \<noteq> []" "\<forall>d \<in> set ds. is_digit d"
    by (auto simp: signed_digits_def)
  have nd: "c_minus \<notin> set ds" using s(4) by (auto simp: is_digit_def c_minus_def)
  show ?thesis
  proof (cases "c = c_minus")
    case True
    then show ?thesis using s nd
      by (auto simp: normalizePlus_def signed_digits_def lit_def is_sign_def c_minus_def)
  next
    case False
    then show ?thesis using s nd
      by (auto simp: normalizePlus_def signed_digits_def replace_first_absent)
  qed
qed

lemma scan_simple_plain: "a \<in> set (scan_simple dmax t from) \<Longrightarrow> plain_bonus a"
proof (induction dmax t "from" rule: scan_simple.induct)
  case (1 dmax t "from")
  show ?case
  proof (cases "re_exec (simple_re dmax) t from")
    case None
    then show ?thesis using 1(2) by (subst (asm) scan_simple.simps) simp
  next
    case (Some m)
    from re_exec_Some[OF Some] have "signed_digits (m3 m)" by (auto dest: simple_bonus)
    then have "plain_bonus \<lparr>name = Some (clean (Some (m2 m))), attack = Some (normalizePlus (Some (m3 m))), damage = None\<rparr>"
      using normalizePlus_signed by (simp add: plain_bonus_def)
    then show ?thesis using 1 Some
      by (subst (asm) (2) scan_simple.simps) auto
  qed
qed

lemma scan_detailed_plain: "a \<in> set (scan_detailed dmax t from) \<Longrightarrow> plain_bonus a"
proof (induction dmax t "from" rule: scan_detailed.induct)
  case (1 dmax t "from")
  show ?case
  proof (cases "re_exec (detailed_re dmax) t from")
    case None
    then show ?thesis using 1(2) by (subst (asm) scan_detailed.simps) simp
  next
    case (Some m)
    from re_exec_Some[OF Some] have "signed_digits (m3 m)" by (auto dest: detailed_bonus)
    then have "plain_bonus \<lparr>name = Some (clean (Some (m2 m))), attack = Some (normalizePlus (Some (m3 m))), damage = Some (clean (m4 m))\<rparr>"
      using normalizePlus_signed by (simp add: plain_bonus_def)
    then show ?thesis using 1 Some
      by (subst (asm) (2) scan_detailed.simps) auto
  qed
qed

text \<open>A sign followed by digits is read as a number.\<close>

lemma parse_digits:
  assumes "ds \<noteq> []" "\<forall>d \<in> set ds. is_digit d"
  shows "parseInt10 ds = to_number False (digits_value ds)"
    "parseInt10 (45 # ds) = to_number True (digits_value ds)"
proof -
  obtain x xs where ds: "ds = x # xs" using assms(1) by (cases ds) auto
  have x: "is_digit x" using assms(2) ds by simp
  then have ns: "\<not> is_space x" "x \<noteq> 45" "x \<noteq> 43" by (auto simp: is_digit_def is_space_def)
  have tw: "takeWhile is_digit ds = ds" using assms(2) by (simp add: takeWhile_eq_all_conv)
  have dw: "dropWhile is_space ds = ds" using ns by (simp add: ds)
  have u: "(if ds \<noteq> [] \<and> (hd ds = 43 \<or> hd ds = 45) then tl ds else ds) = ds"
    using ns by (simp add: ds)
  have ng: "(ds \<noteq> [] \<and> hd ds = 45) = False" using ns by (simp add: ds)
  show "parseInt10 ds = to_number False (digits_value ds)"
    unfolding parseInt10_def Let_def dw u ng tw using assms(1) by simp
  show "parseInt10 (45 # ds) = to_number True (digits_value ds)"
    using assms(1) by (simp add: parseInt10_def Let_def is_space_def tw)
qed

lemma plain_numeric:
  assumes "plain_bonus a"
  shows "numeric_bonus a"
proof -
  from assms obtain c ds where s: "attack a = Some (c # ds)" "c \<noteq> c_minus" "is_sign c"
      "ds \<noteq> []" "\<forall>x \<in> set ds. is_digit x"
    by (auto simp: plain_bonus_def signed_digits_def)
  have n43: "43 \<notin> set ds" using s(5) by (auto simp: is_digit_def)
  have "bonusNum a = to_number False (digits_value ds) \<or> bonusNum a = to_number True (digits_value ds)"
    using s(1,2,3) n43 parse_digits[OF s(4,5)]
    by (auto simp: bonusNum_def is_sign_def replace_first_absent)
  then show ?thesis using to_number_cases by (auto simp: numeric_bonus_def)
qed

subsection \<open>The two digit bounds\<close>

lemma bind_cong_list: "(\<And>x. x \<in> set xs \<Longrightarrow> f x = g x) \<Longrightarrow> xs \<bind> f = xs \<bind> g"
  by (simp add: List.bind_def cong: map_cong)

lemma digits_short:
  assumes "short_bonuses t" "d0 \<in> set (one is_sign t b0)"
  shows "greedy is_digit 1 (Some 2) t d0 = greedy is_digit 1 None t d0"
proof -
  from assms(2) have "b0 < length t" "is_sign (t ! b0)" "d0 = Suc b0"
    by (auto simp: one_def split: if_splits)
  then have "run is_digit t d0 \<le> 2" using assms(1) by (simp add: short_bonuses_def)
  then show ?thesis by (simp add: greedy_def min_def)
qed

lemma attack_head_short:
  assumes "short_bonuses t"
  shows "attack_head (Some 2) t i = attack_head None t i"
  unfolding attack_head_def
  by (intro bind_cong_list) (simp only: digits_short[OF assms])

lemma detailed_short: "short_bonuses t \<Longrightarrow> detailed_re (Some 2) t = detailed_re None t"
  by (rule ext) (simp add: detailed_re_def attack_head_short)

lemma simple_short: "short_bonuses t \<Longrightarrow> simple_re (Some 2) t = simple_re None t"
  by (rule ext) (simp add: simple_re_def attack_head_short)

lemma scan_detailed_short:
  "short_bonuses t \<Longrightarrow> scan_detailed (Some 2) t from = scan_detailed None t from"
proof (induction "None :: nat option" t "from" rule: scan_detailed.induct)
  case (1 t "from")
  have e: "re_exec (detailed_re (Some 2)) t from = re_exec (detailed_re None) t from"
    by (simp add: re_exec_def detailed_short[OF 1(2)])
  show ?case
    using 1
    by (subst scan_detailed.simps, subst (2) scan_detailed.simps)
       (auto simp: e split: option.splits)
qed

lemma scan_simple_short:
  "short_bonuses t \<Longrightarrow> scan_simple (Some 2) t from = scan_simple None t from"
proof (induction "None :: nat option" t "from" rule: scan_simple.induct)
  case (1 t "from")
  have e: "re_exec (simple_re (Some 2)) t from = re_exec (simple_re None) t from"
    by (simp add: re_exec_def simple_short[OF 1(2)])
  show ?case
    using 1
    by (subst scan_simple.simps, subst (2) scan_simple.simps)
       (auto simp: e split: option.splits)
qed

lemma candidates_short:
  "short_bonuses t \<Longrightarrow> attack_candidates_p0 [t] = attack_candidates t"
  by (simp add: attack_candidates_p0_def attack_candidates_def scan_detailed_short scan_simple_short Let_def cong: if_cong)

lemma candidates_named: "a \<in> set (attack_candidates t) \<Longrightarrow> plain_bonus a"
  by (auto simp: attack_candidates_def Let_def dest: scan_detailed_plain scan_simple_plain split: if_splits)

lemma candidates_p0_named: "a \<in> set (attack_candidates_p0 blocks) \<Longrightarrow> plain_bonus a"
  by (auto simp: attack_candidates_p0_def Let_def dest: scan_detailed_plain scan_simple_plain split: if_splits)

lemma extract_p0_eq: "extractAttacks_blocks lc blocks = Inr (coalesceAttacks lc (attack_candidates_p0 blocks))"
  using candidates_p0_named[of _ blocks]
  by (auto simp: extractAttacks_blocks_def coalesceAttacks_p0_eq plain_bonus_def)

subsection \<open>Evaluation on the examples\<close>

lemmas re_defs = keyword_def lit_ci_def lit_def greedy_def lazy_def one_def run_def slice_def
  List.bind_def is_space_def is_digit_def is_sign_def is_name_char_def ascii_upper_def
  c_minus_def c_bullet_def c_emdash_def

lemmas scan_defs = scan_detailed.simps scan_simple.simps re_exec_def detailed_re_def simple_re_def
  attack_head_def clean_def trim_def normalizePlus_def

lemma scan_blk123: "scan_detailed (Some 2) blk123 0 = [\<lparr>name = Some (lit ''a''), attack = Some (lit ''+12''), damage = Some (lit ''1'')\<rparr>]"
  by (simp add: blk123_def scan_defs re_defs)

lemma scan_blk123_unbounded: "scan_detailed None blk123 0 = [\<lparr>name = Some (lit ''a''), attack = Some (lit ''+123''), damage = Some (lit ''1'')\<rparr>]"
  by (simp add: blk123_def scan_defs re_defs)

lemma short_bonuses_code: "short_bonuses t \<longleftrightarrow> list_all (\<lambda>p. is_sign (t ! p) \<longrightarrow> run is_digit t (Suc p) \<le> 2) [0 ..< length t]"
  by (auto simp: short_bonuses_def list_all_iff)

lemma short_blk18: "short_bonuses blk18"
  by (simp add: short_bonuses_code blk18_def re_defs)

lemma scan_blk18: "scan_detailed (Some 2) blk18 0 = [\<lparr>name = Some (lit ''claw''), attack = Some (lit ''+18''), damage = Some (lit ''2d8'')\<rparr>]"
  by (simp add: blk18_def scan_defs re_defs)

lemma scan_blk_minus_detailed: "scan_detailed (Some 2) blk_minus 0 = []"
  by (simp add: blk_minus_def scan_defs re_defs)

lemma scan_blk_minus_simple: "scan_simple (Some 2) blk_minus 0 = [\<lparr>name = Some (lit ''claw''), attack = Some (lit ''-5''), damage = None\<rparr>]"
  by (simp add: blk_minus_def scan_defs re_defs)

subsection \<open>The merged entries are candidates\<close>

lemma values_in_map_set: "set (map_values (map_set m k v)) \<subseteq> insert v (set (map_values m))"
proof (induction m)
  case Nil
  show ?case by (simp add: map_values_def)
next
  case (Cons kv m)
  obtain k' v' where "kv = (k', v')" by (cases kv)
  then show ?case using Cons.IH by (cases "k' = k") (auto simp: map_values_def)
qed

lemma fold_values_subset:
  "set (map_values (fold (coalesce_step lc) list m)) \<subseteq> set (map_values m) \<union> set list"
proof (induction list arbitrary: m)
  case Nil
  show ?case by simp
next
  case (Cons a as)
  have "set (map_values (coalesce_step lc a m)) \<subseteq> insert a (set (map_values m))"
    using values_in_map_set[of m "attack_key lc a" a]
    by (auto simp: coalesce_step_def Let_def split: option.splits)
  then show ?case using Cons.IH[of "coalesce_step lc a m"] by auto
qed

lemma coalesce_mem: "a \<in> set (coalesceAttacks lc list) \<Longrightarrow> a \<in> set list"
  using fold_values_subset[of lc list "[]"] by (auto simp: coalesceAttacks_def map_values_def)

section \<open>Retrieval\<close>




section \<open>The entry point on the text route\<close>

lemmas text_defs = parseText_def firstInt_def creature_line_re_def creature_paren_re_def
  creature_plain_re_def traits_line_re_def traits_re_def labeled_int_re_def speed_re_def
  bos_def eos_def bol_def eol_def dot_def is_lt_def is_word_def is_colon_def c_fwcolon_def
  splitTraits_def is_trait_sep_def split_runs.simps extractAttacksFromText_def attack_candidates_def

lemma fetch_mirror:
  "fetchAoN (\<lambda>x. Some url0) (\<lambda>s. s) (net_mirror page) (href url0) =
     ([href url0, mirror_address (\<lambda>s. s) url0], Inr (Text, page))"
proof -
  have "mirror_address (\<lambda>s. s) url0 \<noteq> href url0"
    by (simp add: mirror_address_def url0_def lit_def)
  then show ?thesis
    by (simp add: fetchAoN_def direct_attempt_def mirror_attempt_def net_mirror_def)
qed

lemma parse_blank:
  "parseText lc (lit ''Not found'') =
     \<lparr>r_name = None, r_level = None, r_traits = Some [], r_ac = None, r_hp = None,
      r_speed = None, r_attacks = Some []\<rparr>"
  by (simp add: text_defs scan_defs re_defs coalesceAttacks_def map_values_def)

lemma sanity_fails_iff:
  "sanity_fails out \<longleftrightarrow>
     or_str (r_name out) [] = [] \<and>
     r_level out \<in> {Some NaN, Some PosInf, Some NegInf} \<and>
     r_hp out \<in> {Some NaN, Some PosInf, Some NegInf}"
proof -
  have "\<And>v. \<not> isFinite v \<longleftrightarrow> v \<in> {Some NaN, Some PosInf, Some NegInf}"
  proof -
    fix v show "\<not> isFinite v \<longleftrightarrow> v \<in> {Some NaN, Some PosInf, Some NegInf}"
      by (cases v rule: isFinite.cases) simp_all
  qed
  then show ?thesis by (simp add: sanity_fails_def)
qed

lemma sanity_passes_absent: "r_level out = None \<or> r_hp out = None \<Longrightarrow> \<not> sanity_fails out"
  by (auto simp: sanity_fails_iff)

lemma sanity_passes_extracted:
  "or_str (r_name out) [] \<noteq> [] \<or> (\<exists>n. r_level out = Some (Num n)) \<or> (\<exists>n. r_hp out = Some (Num n))
     \<Longrightarrow> \<not> sanity_fails out"
  by (auto simp: sanity_fails_iff)

lemma splitTraits_no_empty: "[] \<notin> set (splitTraits s)"
  by (simp add: splitTraits_def)

lemma dedup_fold:
  "distinct acc \<Longrightarrow>
   distinct (fold (\<lambda>x s. if x \<in> set s then s else s @ [x]) a acc) \<and>
   set (fold (\<lambda>x s. if x \<in> set s then s else s @ [x]) a acc) = set acc \<union> set a"
  by (induction a arbitrary: acc) auto

lemma dedup_distinct: "distinct (dedup a) \<and> set (dedup a) = set a"
  using dedup_fold[of "[]" a] by (simp add: dedup_def)

lemma parseText_traits_example:
  "r_traits (parseText lc (lit ''Traits: Fiend, Evil, Large'')) =
     Some [lit ''Fiend'', lit ''Evil'', lit ''Large'']"
  by (simp add: text_defs scan_defs re_defs coalesceAttacks_def map_values_def)

subsection \<open>The extraction of \<^verbatim>\<open>part_000\<close> always returns\<close>

lemma extract_total: "extractAttacks lc raw = Inr (coalesceAttacks lc (attack_candidates_p0 (take 40 (textBlocks raw))))"
  by (simp add: extractAttacks_def extract_p0_eq)

section \<open>The claims\<close>

text \<open>
  Claim C1.  The claim asks for \<open>ParseFailed\<close> when name, level and hit points are all
  missing.  On a page that holds none of them the sanity test of \<open>importFromLink\<close>
  does not fail, because the global \<open>isFinite\<close> holds of \<open>null\<close>
  (\<open>sanity_passes_absent\<close>): the call returns the defaulted record.  The theorem
  evaluates the call on such a page, refused on the direct route and delivered as
  text by the mirror.
\<close>

theorem importFromLink_blank_page:
  "importFromLink (\<lambda>x. Some url0) (\<lambda>s. s) (net_mirror (lit ''Not found'')) parseHtml lc (href url0) =
     ([href url0, mirror_address (\<lambda>s. s) url0],
      Inr \<lparr>r_name = Some (lit ''Unknown''), r_level = None, r_traits = Some [], r_ac = None,
           r_hp = None, r_speed = None, r_attacks = Some []\<rparr>)"
  by (simp add: importFromLink_def fetch_mirror parse_blank sanity_fails_def normalize_def)

text \<open>
  Claim C2 (amended).  When two candidates share a case-insensitive name, the merge
  keeps the one whose bonus is the greater number as \<open>parseInt\<close> reads it once a plus
  sign is removed, a minus sign being read as the sign of a negative number; of equal
  numbers it keeps the first encountered.  Stated with \<open>kept_at\<close>: each name of the
  candidate list keeps exactly one entry, no candidate of that name has a greater
  bonus, and the kept one is greater than every earlier candidate of that name.  This
  holds of every list whose bonuses read as numbers, it holds of the attacks that the
  extraction of either file returns for any text, and the merge of
  \<^verbatim>\<open>part_000\<close> returns the same list whenever no name is missing.  The witness is
  the pair of ``claw'' candidates with bonuses \<open>+18\<close> and \<open>+12\<close>, of which \<open>+18\<close> is
  kept.
\<close>

theorem coalesce_keeps_largest:
  "((\<forall>a\<in>set list. numeric_bonus a) \<longrightarrow>
      attack_key lc ` set (coalesceAttacks lc list) = attack_key lc ` set list \<and>
      (\<forall>e\<in>set (coalesceAttacks lc list). \<exists>i. kept_at lc list i \<and> list ! i = e) \<and>
      ((\<forall>a\<in>set list. name a \<noteq> None) \<longrightarrow>
         coalesceAttacks_p0 lc list = Inr (coalesceAttacks lc list))) \<and>
   (\<forall>e\<in>set (extractAttacksFromText lc t).
      \<exists>i. kept_at lc (attack_candidates t) i \<and> attack_candidates t ! i = e) \<and>
   (\<exists>out. extractAttacks_blocks lc blocks = Inr out \<and>
      (\<forall>e\<in>set out.
         \<exists>i. kept_at lc (attack_candidates_p0 blocks) i \<and> attack_candidates_p0 blocks ! i = e))"
proof -
  have 1: "(\<forall>a\<in>set list. numeric_bonus a) \<longrightarrow>
      attack_key lc ` set (coalesceAttacks lc list) = attack_key lc ` set list \<and>
      (\<forall>e\<in>set (coalesceAttacks lc list). \<exists>i. kept_at lc list i \<and> list ! i = e) \<and>
      ((\<forall>a\<in>set list. name a \<noteq> None) \<longrightarrow>
         coalesceAttacks_p0 lc list = Inr (coalesceAttacks lc list))"
    using coalesce_kept[of list lc] by (simp add: coalesceAttacks_p0_eq)
  have "\<forall>a\<in>set (attack_candidates t). numeric_bonus a"
    by (blast dest: candidates_named plain_numeric)
  then have 2: "\<forall>e\<in>set (extractAttacksFromText lc t).
      \<exists>i. kept_at lc (attack_candidates t) i \<and> attack_candidates t ! i = e"
    unfolding extractAttacksFromText_def using coalesce_kept[of "attack_candidates t" lc] by blast
  have "\<forall>a\<in>set (attack_candidates_p0 blocks). numeric_bonus a"
    by (blast dest: candidates_p0_named plain_numeric)
  then have "\<forall>e\<in>set (coalesceAttacks lc (attack_candidates_p0 blocks)).
      \<exists>i. kept_at lc (attack_candidates_p0 blocks) i \<and> attack_candidates_p0 blocks ! i = e"
    using coalesce_kept[of "attack_candidates_p0 blocks" lc] by blast
  then have 3: "\<exists>out. extractAttacks_blocks lc blocks = Inr out \<and>
      (\<forall>e\<in>set out.
         \<exists>i. kept_at lc (attack_candidates_p0 blocks) i \<and> attack_candidates_p0 blocks ! i = e)"
    by (simp add: extract_p0_eq)
  show ?thesis using 1 2 3 by blast
qed

theorem coalesce_keeps_largest_witness:
  "numeric_bonus claw18 \<and> numeric_bonus claw12 \<and>
   name claw18 \<noteq> None \<and> name claw12 \<noteq> None \<and>
   attack_key ascii_lower claw12 = attack_key ascii_lower claw18 \<and>
   bonusNum claw18 = Num 18 \<and> bonusNum claw12 = Num 12 \<and>
   coalesceAttacks ascii_lower [claw18, claw12] = [claw18] \<and>
   coalesceAttacks_p0 ascii_lower [claw18, claw12] = Inr [claw18] \<and>
   (\<exists>i. kept_at ascii_lower [claw18, claw12] i \<and> [claw18, claw12] ! i = claw18)"
proof -
  have h: "\<forall>a\<in>set [claw18, claw12]. numeric_bonus a"
    by (simp add: claw18_def claw12_def eval_defs)
  have n: "\<forall>a\<in>set [claw18, claw12]. name a \<noteq> None"
    by (simp add: claw18_def claw12_def)
  have k: "attack_key ascii_lower claw12 = attack_key ascii_lower claw18"
    by (simp add: claw18_def claw12_def eval_defs)
  have b: "bonusNum claw18 = Num 18" "bonusNum claw12 = Num 12"
    by (simp_all add: claw18_def claw12_def eval_defs)
  have e: "coalesceAttacks ascii_lower [claw18, claw12] = [claw18]"
    by (simp add: claw18_def claw12_def eval_defs Let_def)
  show ?thesis
    using h n k b e coalesce_keeps_largest[of "[claw18, claw12]" ascii_lower "[]" "[]"] by simp
qed

text \<open>
  The counterexample to claim C2 as stated.  The candidates \<open>-18\<close> and \<open>+12\<close> share the
  name ``claw''.  With the sign stripped, as the claim words it, the first bonus is 18
  and the larger; the merge of both files reads \<open>-18\<close> as a negative number and keeps
  the \<open>+12\<close> entry.
\<close>

theorem coalesce_sign_counterexample:
  "attack_key ascii_lower claw_neg18 = attack_key ascii_lower claw12 \<and>
   sign_stripped_bonus claw_neg18 = Num 18 \<and>
   sign_stripped_bonus claw12 = Num 12 \<and>
   bonusNum claw_neg18 = Num (- 18) \<and>
   coalesceAttacks ascii_lower [claw_neg18, claw12] = [claw12] \<and>
   coalesceAttacks_p0 ascii_lower [claw_neg18, claw12] = Inr [claw12] \<and>
   coalesceAttacks ascii_lower [claw12, claw_neg18] = [claw12]"
proof -
  have k: "attack_key ascii_lower claw_neg18 = attack_key ascii_lower claw12"
    by (simp add: claw_neg18_def claw12_def eval_defs)
  have s: "sign_stripped_bonus claw_neg18 = Num 18" "sign_stripped_bonus claw12 = Num 12"
    by (simp_all add: sign_stripped_bonus_def claw_neg18_def claw12_def eval_defs)
  have b: "bonusNum claw_neg18 = Num (- 18)"
    by (simp add: claw_neg18_def eval_defs)
  have e: "coalesceAttacks ascii_lower [claw_neg18, claw12] = [claw12]"
    by (simp add: claw_neg18_def claw12_def eval_defs Let_def)
  have e': "coalesceAttacks ascii_lower [claw12, claw_neg18] = [claw12]"
    by (simp add: claw_neg18_def claw12_def eval_defs Let_def)
  have n: "\<forall>a\<in>set [claw_neg18, claw12]. name a \<noteq> None"
    by (simp add: claw_neg18_def claw12_def)
  have p: "coalesceAttacks_p0 ascii_lower [claw_neg18, claw12] = Inr [claw12]"
    using n e by (simp add: coalesceAttacks_p0_eq)
  show ?thesis using k s b e e' p by simp
qed

text \<open>
  Claim C3.  The claim asks for a traits sequence without duplicates.  The text route
  splits the traits line and never removes duplicates (\<open>dedup\<close> is applied to trait
  links only): the line \<open>Traits: Evil, Evil\<close> yields the trait \<open>Evil\<close> twice, also in
  the record that \<open>importFromLink\<close> returns.  Empty traits are dropped
  (\<open>splitTraits_no_empty\<close>) and the example of the claim holds
  (\<open>parseText_traits_example\<close>).
\<close>

theorem parseText_repeated_trait:
  "r_traits (parseText lc page_traits) = Some [lit ''Evil'', lit ''Evil''] \<and>
   snd (importFromLink (\<lambda>x. Some url0) (\<lambda>s. s) (net_mirror page_traits) parseHtml lc (href url0)) =
     Inr \<lparr>r_name = Some (lit ''Unknown''), r_level = None,
          r_traits = Some [lit ''Evil'', lit ''Evil''], r_ac = None,
          r_hp = None, r_speed = None, r_attacks = Some []\<rparr>"
proof -
  have p: "parseText lc page_traits =
     \<lparr>r_name = None, r_level = None, r_traits = Some [lit ''Evil'', lit ''Evil''], r_ac = None,
      r_hp = None, r_speed = None, r_attacks = Some []\<rparr>"
    by (simp add: page_traits_def text_defs scan_defs re_defs coalesceAttacks_def map_values_def)
  show ?thesis
    by (simp add: importFromLink_def fetch_mirror p sanity_fails_def normalize_def)
qed

text \<open>
  Claim C4.  The merged list holds at most one entry per lower-cased name: the keys of
  its entries are pairwise distinct.  This holds of the merge of both files on every
  candidate list, of the attacks that \<open>extractAttacksFromText\<close> and \<open>extractAttacks\<close>
  return, and of the attacks of the record parsed from a text.
\<close>

theorem coalesce_names_unique:
  "distinct (map (attack_key lc) (coalesceAttacks lc list)) \<and>
   distinct (map (attack_key lc) (extractAttacksFromText lc t)) \<and>
   (\<exists>as. r_attacks (normalize (parseText lc t)) = Some as \<and> distinct (map (attack_key lc) as)) \<and>
   (\<forall>out. coalesceAttacks_p0 lc list = Inr out \<longrightarrow> distinct (map (attack_key lc) out)) \<and>
   (\<exists>out. extractAttacks lc raw = Inr out \<and> distinct (map (attack_key lc) out))"
proof -
  have 1: "distinct (map (attack_key lc) (coalesceAttacks lc list))" by (rule coalesce_distinct)
  have 2: "distinct (map (attack_key lc) (extractAttacksFromText lc t))"
    unfolding extractAttacksFromText_def by (rule coalesce_distinct)
  have 3: "\<exists>as. r_attacks (normalize (parseText lc t)) = Some as \<and> distinct (map (attack_key lc) as)"
    using 2 by (simp add: normalize_def parseText_def Let_def)
  have 4: "\<forall>out. coalesceAttacks_p0 lc list = Inr out \<longrightarrow> distinct (map (attack_key lc) out)"
    using 1 by (auto simp: coalesceAttacks_p0_eq split: if_splits)
  have 5: "\<exists>out. extractAttacks lc raw = Inr out \<and> distinct (map (attack_key lc) out)"
    unfolding extract_total by (simp add: coalesce_distinct)
  show ?thesis using 1 2 3 4 5 by blast
qed

theorem coalesce_names_unique_witness:
  "coalesceAttacks_p0 ascii_lower [claw18, bite7, claw12] = Inr [claw18, bite7] \<and>
   map (attack_key ascii_lower) [claw18, bite7] = [lit ''claw'', lit ''bite''] \<and>
   distinct (map (attack_key ascii_lower) [claw18, bite7])"
proof -
  have e: "coalesceAttacks ascii_lower [claw18, bite7, claw12] = [claw18, bite7]"
    by (simp add: claw18_def claw12_def bite7_def eval_defs Let_def)
  have n: "\<forall>a\<in>set [claw18, bite7, claw12]. name a \<noteq> None"
    by (simp add: claw18_def claw12_def bite7_def)
  have p: "coalesceAttacks_p0 ascii_lower [claw18, bite7, claw12] = Inr [claw18, bite7]"
    using n e by (simp add: coalesceAttacks_p0_eq)
  have k: "map (attack_key ascii_lower) [claw18, bite7] = [lit ''claw'', lit ''bite'']"
    by (simp add: claw18_def bite7_def eval_defs)
  show ?thesis
    using coalesce_names_unique[of ascii_lower "[claw18, bite7, claw12]" "[]" "[]"] p k by simp
qed

text \<open>
  Claim C5.  The candidates are those of the detailed pattern when there is at least
  one, and those of the relaxed pattern exactly when the detailed pattern finds none;
  every candidate of the relaxed pattern has no damage and every candidate of the
  detailed pattern has one, so the attacks returned carry no damage exactly when the
  relaxed pattern was used.
\<close>

theorem fallback_phase:
  "attack_candidates t =
     (if scan_detailed (Some 2) t 0 = [] then scan_simple (Some 2) t 0
      else scan_detailed (Some 2) t 0) \<and>
   attack_candidates_p0 blocks =
     (if concat (map (\<lambda>b. scan_detailed None b 0) blocks) = []
      then concat (map (\<lambda>b. scan_simple None b 0) blocks)
      else concat (map (\<lambda>b. scan_detailed None b 0) blocks)) \<and>
   (\<forall>a \<in> set (scan_simple dmax t from). damage a = None) \<and>
   (\<forall>a \<in> set (scan_detailed dmax t from). damage a \<noteq> None) \<and>
   (scan_detailed (Some 2) t 0 = [] \<longrightarrow>
      (\<forall>a \<in> set (extractAttacksFromText lc t). damage a = None)) \<and>
   (scan_detailed (Some 2) t 0 \<noteq> [] \<longrightarrow>
      (\<forall>a \<in> set (extractAttacksFromText lc t). damage a \<noteq> None))"
proof -
  have 1: "attack_candidates t =
     (if scan_detailed (Some 2) t 0 = [] then scan_simple (Some 2) t 0
      else scan_detailed (Some 2) t 0)"
    by (simp add: attack_candidates_def Let_def)
  have 2: "attack_candidates_p0 blocks =
     (if concat (map (\<lambda>b. scan_detailed None b 0) blocks) = []
      then concat (map (\<lambda>b. scan_simple None b 0) blocks)
      else concat (map (\<lambda>b. scan_detailed None b 0) blocks))"
    by (simp add: attack_candidates_p0_def Let_def)
  have 3: "\<forall>a \<in> set (scan_simple dmax t from). damage a = None"
    by (blast dest: scan_simple_damage)
  have 4: "\<forall>a \<in> set (scan_detailed dmax t from). damage a \<noteq> None"
    by (blast dest: scan_detailed_damage)
  have 5: "scan_detailed (Some 2) t 0 = [] \<longrightarrow>
      (\<forall>a \<in> set (extractAttacksFromText lc t). damage a = None)"
    by (auto simp: extractAttacksFromText_def 1 dest!: coalesce_mem scan_simple_damage)
  have 6: "scan_detailed (Some 2) t 0 \<noteq> [] \<longrightarrow>
      (\<forall>a \<in> set (extractAttacksFromText lc t). damage a \<noteq> None)"
    by (auto simp: extractAttacksFromText_def 1 dest!: coalesce_mem scan_detailed_damage)
  show ?thesis using 1 2 3 4 5 6 by blast
qed

theorem fallback_phase_witness:
  "scan_detailed (Some 2) blk_minus 0 = [] \<and>
   attack_candidates blk_minus = scan_simple (Some 2) blk_minus 0 \<and>
   extractAttacksFromText ascii_lower blk_minus =
     [\<lparr>name = Some (lit ''claw''), attack = Some (lit ''-5''), damage = None\<rparr>] \<and>
   scan_detailed (Some 2) blk18 0 \<noteq> [] \<and>
   attack_candidates blk18 = scan_detailed (Some 2) blk18 0 \<and>
   extractAttacksFromText ascii_lower blk18 =
     [\<lparr>name = Some (lit ''claw''), attack = Some (lit ''+18''), damage = Some (lit ''2d8'')\<rparr>]"
proof -
  note a = fallback_phase[of blk_minus "[]" None 0 ascii_lower]
  note b = fallback_phase[of blk18 "[]" None 0 ascii_lower]
  have c: "attack_candidates blk_minus = scan_simple (Some 2) blk_minus 0"
    using a scan_blk_minus_detailed by simp
  have d: "attack_candidates blk18 = scan_detailed (Some 2) blk18 0"
    using b scan_blk18 by simp
  have e: "extractAttacksFromText ascii_lower blk_minus =
     [\<lparr>name = Some (lit ''claw''), attack = Some (lit ''-5''), damage = None\<rparr>]"
    by (simp add: extractAttacksFromText_def c scan_blk_minus_simple eval_defs)
  have f: "extractAttacksFromText ascii_lower blk18 =
     [\<lparr>name = Some (lit ''claw''), attack = Some (lit ''+18''), damage = Some (lit ''2d8'')\<rparr>]"
    by (simp add: extractAttacksFromText_def d scan_blk18 eval_defs)
  show ?thesis using c d e f scan_blk_minus_detailed scan_blk18 by simp
qed

text \<open>
  Claim C6.  The normalizer returns a record whose name is a non-empty string, the
  placeholder \<open>Unknown\<close> when the extracted name is missing or empty and the extracted
  name otherwise; whose level, armour class and hit points are each a finite integer
  or absent, an integer being kept as it is; whose speed is absent when it was missing
  or empty and is never the empty string; and whose traits and attacks are sequences,
  empty when the input had none.  The record literal of \<^verbatim>\<open>part_000\<close> has the same
  properties.
\<close>

theorem normalize_defaults:
  "(\<exists>s. r_name (normalize obj) = Some s \<and> s \<noteq> [] \<and>
        (or_str (r_name obj) [] = [] \<longrightarrow> s = lit ''Unknown'') \<and>
        (or_str (r_name obj) [] \<noteq> [] \<longrightarrow> r_name obj = Some s)) \<and>
   int_or_absent (r_level (normalize obj)) \<and>
   int_or_absent (r_ac (normalize obj)) \<and>
   int_or_absent (r_hp (normalize obj)) \<and>
   (int_or_absent (r_level obj) \<longrightarrow> r_level (normalize obj) = r_level obj) \<and>
   (int_or_absent (r_ac obj) \<longrightarrow> r_ac (normalize obj) = r_ac obj) \<and>
   (int_or_absent (r_hp obj) \<longrightarrow> r_hp (normalize obj) = r_hp obj) \<and>
   r_speed (normalize obj) \<noteq> Some [] \<and>
   (or_str (r_speed obj) [] = [] \<longrightarrow> r_speed (normalize obj) = None) \<and>
   (or_str (r_speed obj) [] \<noteq> [] \<longrightarrow> r_speed (normalize obj) = r_speed obj) \<and>
   (\<exists>ts. r_traits (normalize obj) = Some ts \<and> (r_traits obj = None \<longrightarrow> ts = [])) \<and>
   (\<exists>as. r_attacks (normalize obj) = Some as \<and> (r_attacks obj = None \<longrightarrow> as = [])) \<and>
   (\<exists>s. r_name (assemble name' level' traits' ac' hp' speed' attacks') = Some s \<and> s \<noteq> [] \<and>
        (or_str name' [] = [] \<longrightarrow> s = lit ''Unknown'')) \<and>
   int_or_absent (r_level (assemble name' level' traits' ac' hp' speed' attacks')) \<and>
   int_or_absent (r_ac (assemble name' level' traits' ac' hp' speed' attacks')) \<and>
   int_or_absent (r_hp (assemble name' level' traits' ac' hp' speed' attacks')) \<and>
   r_speed (assemble name' level' traits' ac' hp' speed' attacks') \<noteq> Some [] \<and>
   (or_str speed' [] = [] \<longrightarrow>
      r_speed (assemble name' level' traits' ac' hp' speed' attacks') = None) \<and>
   r_traits (assemble name' level' traits' ac' hp' speed' attacks') = Some traits' \<and>
   r_attacks (assemble name' level' traits' ac' hp' speed' attacks') = Some attacks'"
proof -
  have u: "lit ''Unknown'' \<noteq> []" by (simp add: lit_def)
  have fin: "\<And>v. int_or_absent (if Number_isFinite v then v else None)"
  proof -
    fix v show "int_or_absent (if Number_isFinite v then v else None)"
      by (cases v rule: Number_isFinite.cases) (simp_all add: int_or_absent_def)
  qed
  have keep: "\<And>v. int_or_absent v \<Longrightarrow> (if Number_isFinite v then v else None) = v"
    by (auto simp: int_or_absent_def)
  have nm: "\<And>n. \<exists>s. Some (or_str n (lit ''Unknown'')) = Some s \<and> s \<noteq> [] \<and>
        (or_str n [] = [] \<longrightarrow> s = lit ''Unknown'') \<and> (or_str n [] \<noteq> [] \<longrightarrow> n = Some s)"
  proof -
    fix n show "\<exists>s. Some (or_str n (lit ''Unknown'')) = Some s \<and> s \<noteq> [] \<and>
        (or_str n [] = [] \<longrightarrow> s = lit ''Unknown'') \<and> (or_str n [] \<noteq> [] \<longrightarrow> n = Some s)"
      using u by (cases n) auto
  qed
  have sp: "\<And>v. (case v of None \<Rightarrow> None | Some s \<Rightarrow> if s = [] then None else Some s) \<noteq> Some [] \<and>
      (or_str v [] = [] \<longrightarrow> (case v of None \<Rightarrow> None | Some s \<Rightarrow> if s = [] then None else Some s) = None) \<and>
      (or_str v [] \<noteq> [] \<longrightarrow> (case v of None \<Rightarrow> None | Some s \<Rightarrow> if s = [] then None else Some s) = v)"
    by (auto split: option.splits)
  show ?thesis
    unfolding normalize_def assemble_def
    using nm[of "r_name obj"] nm[of name'] fin keep sp[of "r_speed obj"] sp[of speed']
    by (simp split: option.splits)
qed

theorem normalize_defaults_witness:
  "or_str (r_name obj_blank) [] = [] \<and> \<not> int_or_absent (r_level obj_blank) \<and>
   int_or_absent (r_hp obj_blank) \<and> or_str (r_speed obj_blank) [] = [] \<and>
   r_traits obj_blank = None \<and> r_attacks obj_blank = None \<and>
   normalize obj_blank =
     \<lparr>r_name = Some (lit ''Unknown''), r_level = None, r_traits = Some [], r_ac = None,
      r_hp = Some (Num 150), r_speed = None, r_attacks = Some []\<rparr> \<and>
   r_name (assemble None None [] None None (Some []) []) = Some (lit ''Unknown'') \<and>
   r_speed (assemble None None [] None None (Some []) []) = None"
  using normalize_defaults[of obj_blank None None "[]" None None "Some []" "[]"]
  by (simp add: obj_blank_def normalize_def assemble_def int_or_absent_def)



text \<open>
  Claim C8.  No attack returned by the extraction of either file contains the
  typographic minus in its bonus, and a bonus written with it comes out with the
  ASCII minus in its place.
\<close>

theorem bonus_sign_normalized:
  "(\<forall>a \<in> set (extractAttacksFromText lc t). \<exists>s. attack a = Some s \<and> c_minus \<notin> set s) \<and>
   (\<exists>out. extractAttacks lc raw = Inr out \<and>
      (\<forall>a \<in> set out. \<exists>s. attack a = Some s \<and> c_minus \<notin> set s)) \<and>
   ((\<forall>d \<in> set ds. is_digit d) \<longrightarrow> normalizePlus (Some (c_minus # ds)) = 45 # ds)"
proof -
  have 1: "\<forall>a \<in> set (extractAttacksFromText lc t). \<exists>s. attack a = Some s \<and> c_minus \<notin> set s"
    by (auto simp: extractAttacksFromText_def plain_bonus_def dest!: coalesce_mem candidates_named)
  have 2: "\<exists>out. extractAttacks lc raw = Inr out \<and>
      (\<forall>a \<in> set out. \<exists>s. attack a = Some s \<and> c_minus \<notin> set s)"
    by (auto simp: extractAttacks_def extract_p0_eq plain_bonus_def dest!: coalesce_mem candidates_p0_named)
  have 3: "(\<forall>d \<in> set ds. is_digit d) \<longrightarrow> normalizePlus (Some (c_minus # ds)) = 45 # ds"
    by (simp add: normalizePlus_def lit_def)
  show ?thesis using 1 2 3 by blast
qed

theorem bonus_sign_normalized_witness:
  "extractAttacksFromText ascii_lower blk_minus =
     [\<lparr>name = Some (lit ''claw''), attack = Some (lit ''-5''), damage = None\<rparr>] \<and>
   c_minus \<notin> set (lit ''-5'') \<and>
   is_digit 53 \<and> normalizePlus (Some [c_minus, 53]) = lit ''-5''"
proof -
  have c: "attack_candidates blk_minus = scan_simple (Some 2) blk_minus 0"
    by (simp add: attack_candidates_def scan_blk_minus_detailed)
  have e: "extractAttacksFromText ascii_lower blk_minus =
     [\<lparr>name = Some (lit ''claw''), attack = Some (lit ''-5''), damage = None\<rparr>]"
    by (simp add: extractAttacksFromText_def c scan_blk_minus_simple eval_defs)
  have d: "is_digit 53" by (simp add: is_digit_def)
  show ?thesis
    using bonus_sign_normalized[of ascii_lower blk_minus "[]" "[53]"] e d
    by (simp add: lit_def c_minus_def)
qed

text \<open>
  Claim C9.  (amended) On a text block in which no sign is followed by more than two
  digits, the attack extraction of \<^verbatim>\<open>part_000\<close> applied to that one block returns the
  list that \<open>extractAttacksFromText\<close> returns.  Without that condition the two differ:
  see \<open>extract_differs_on_three_digits\<close>.
\<close>

theorem extract_equal_on_short_bonuses:
  assumes "short_bonuses t"
  shows "extractAttacks_blocks lc [t] = Inr (extractAttacksFromText lc t)"
  by (simp add: extract_p0_eq candidates_short[OF assms] extractAttacksFromText_def)

theorem extract_equal_on_short_bonuses_witness:
  "short_bonuses blk18 \<and>
   extractAttacksFromText ascii_lower blk18 =
     [\<lparr>name = Some (lit ''claw''), attack = Some (lit ''+18''), damage = Some (lit ''2d8'')\<rparr>] \<and>
   extractAttacks_blocks ascii_lower [blk18] =
     Inr [\<lparr>name = Some (lit ''claw''), attack = Some (lit ''+18''), damage = Some (lit ''2d8'')\<rparr>]"
proof -
  have f: "extractAttacksFromText ascii_lower blk18 =
     [\<lparr>name = Some (lit ''claw''), attack = Some (lit ''+18''), damage = Some (lit ''2d8'')\<rparr>]"
    by (simp add: extractAttacksFromText_def attack_candidates_def scan_blk18 eval_defs)
  show ?thesis
    using extract_equal_on_short_bonuses[OF short_blk18, of ascii_lower] short_blk18 f by simp
qed

text \<open>
  The counterexample to claim C9 as stated: on \<open>Melee a +123(1)\<close> the first file reads
  the bonus \<open>+12\<close> (its pattern takes at most two digits) and \<^verbatim>\<open>part_000\<close> reads \<open>+123\<close>.
\<close>

theorem extract_differs_on_three_digits:
  "extractAttacks_blocks ascii_lower [blk123] \<noteq> Inr (extractAttacksFromText ascii_lower blk123)"
proof -
  have l: "extractAttacksFromText ascii_lower blk123 =
      [\<lparr>name = Some (lit ''a''), attack = Some (lit ''+12''), damage = Some (lit ''1'')\<rparr>]"
    by (simp add: extractAttacksFromText_def attack_candidates_def scan_blk123 eval_defs)
  have r: "extractAttacks_blocks ascii_lower [blk123] =
      Inr [\<lparr>name = Some (lit ''a''), attack = Some (lit ''+123''), damage = Some (lit ''1'')\<rparr>]"
    by (simp add: extract_p0_eq attack_candidates_p0_def scan_blk123_unbounded eval_defs)
  show ?thesis unfolding l r by (simp add: lit_def)
qed

text \<open>
  Claim C10.  An entry kept by the merge whose bonus is absent or the empty string
  counts as bonus 0: a further candidate of the same name takes its place exactly when
  that candidate's parsed bonus is greater than 0, that is a positive number or the
  positive infinity, and the list is unchanged otherwise.
\<close>

theorem coalesce_missing_bonus:
  assumes "p \<in> set (coalesceAttacks lc pre)" "attack_key lc p = attack_key lc a"
    "attack p = None \<or> attack p = Some []"
  shows "bonusNum p = Num 0 \<and>
         coalesceAttacks lc (pre @ [a]) =
           (if (\<exists>n. bonusNum a = Num n \<and> 0 < n) \<or> bonusNum a = PosInf
            then map (\<lambda>x. if x = p then a else x) (coalesceAttacks lc pre)
            else coalesceAttacks lc pre) \<and>
         ((\<forall>x\<in>set (pre @ [a]). name x \<noteq> None) \<longrightarrow>
            coalesceAttacks_p0 lc (pre @ [a]) = Inr (coalesceAttacks lc (pre @ [a])))"
  using coalesce_missing[OF assms] bonusNum_missing[OF assms(3)]
  by (simp add: coalesceAttacks_p0_eq js_gt_zero)

theorem coalesce_missing_bonus_witness:
  "claw_plain \<in> set (coalesceAttacks ascii_lower [claw_plain]) \<and>
   attack_key ascii_lower claw_plain = attack_key ascii_lower claw1 \<and>
   attack claw_plain = None \<and>
   name claw_plain \<noteq> None \<and> name claw1 \<noteq> None \<and>
   bonusNum claw1 = Num 1 \<and>
   coalesceAttacks ascii_lower ([claw_plain] @ [claw1]) = [claw1] \<and>
   coalesceAttacks_p0 ascii_lower ([claw_plain] @ [claw1]) = Inr [claw1]"
proof -
  have e: "coalesceAttacks ascii_lower [claw_plain] = [claw_plain]"
    by (simp add: claw_plain_def eval_defs)
  have p: "claw_plain \<in> set (coalesceAttacks ascii_lower [claw_plain])"
    by (simp add: e)
  have k: "attack_key ascii_lower claw_plain = attack_key ascii_lower claw1"
    by (simp add: claw_plain_def claw1_def eval_defs)
  have a: "attack claw_plain = None \<or> attack claw_plain = Some []"
    by (simp add: claw_plain_def)
  have n: "\<forall>x\<in>set ([claw_plain] @ [claw1]). name x \<noteq> None"
    by (simp add: claw_plain_def claw1_def)
  have b: "bonusNum claw1 = Num 1"
    by (simp add: claw1_def eval_defs)
  show ?thesis
    using coalesce_missing_bonus[OF p k a] n b e k by (simp add: claw_plain_def)
qed

end
